theory Spec2Isabelle
  imports Complex_Main "HOL-Library.AList"
begin

section \<open>JavaScript numbers\<close>

text \<open>
  Every \<^verbatim>\<open>number\<close> of the source is a JavaScript number, a double. The model keeps
  the finite values as rationals and the three special values apart, and identifies
  the negative zero with zero. Its arithmetic on finite values is exact. The
  arithmetic of doubles is exact too as long as the operands and the result are
  integers of magnitude at most \<open>2^53\<close>, and \<^verbatim>\<open>Math.floor\<close> and \<^verbatim>\<open>Math.ceil\<close> of the
  quotient of two such integers are the floor and the ceiling of the exact quotient;
  beyond that range a double result is rounded and the model is not. The properties
  below that state the value of a sum, difference, product or quotient therefore
  bound their numbers by \<open>safe_integer\<close>.
\<close>

datatype jsnum = Num rat | NaN | PosInf | NegInf

text \<open>\<^verbatim>\<open>Number.isSafeInteger\<close>: an integer of magnitude at most \<open>2^53 - 1\<close>.\<close>

definition safe_integer :: "int \<Rightarrow> bool" where
  "safe_integer n = (\<bar>n\<bar> \<le> 2 ^ 53 - 1)"

fun js_neg :: "jsnum \<Rightarrow> jsnum" where
  "js_neg (Num a) = Num (- a)"
| "js_neg NaN = NaN"
| "js_neg PosInf = NegInf"
| "js_neg NegInf = PosInf"

text \<open>The binary \<^verbatim>\<open>+\<close> on two numbers.\<close>

fun js_add :: "jsnum \<Rightarrow> jsnum \<Rightarrow> jsnum" where
  "js_add (Num a) (Num b) = Num (a + b)"
| "js_add NaN _ = NaN"
| "js_add _ NaN = NaN"
| "js_add PosInf NegInf = NaN"
| "js_add NegInf PosInf = NaN"
| "js_add PosInf _ = PosInf"
| "js_add NegInf _ = NegInf"
| "js_add _ PosInf = PosInf"
| "js_add _ NegInf = NegInf"

definition js_sub :: "jsnum \<Rightarrow> jsnum \<Rightarrow> jsnum" where
  "js_sub a b = js_add a (js_neg b)"

fun js_mul :: "jsnum \<Rightarrow> jsnum \<Rightarrow> jsnum" where
  "js_mul (Num a) (Num b) = Num (a * b)"
| "js_mul NaN _ = NaN"
| "js_mul _ NaN = NaN"
| "js_mul PosInf (Num b) = (if b = 0 then NaN else if 0 < b then PosInf else NegInf)"
| "js_mul NegInf (Num b) = (if b = 0 then NaN else if 0 < b then NegInf else PosInf)"
| "js_mul (Num a) PosInf = (if a = 0 then NaN else if 0 < a then PosInf else NegInf)"
| "js_mul (Num a) NegInf = (if a = 0 then NaN else if 0 < a then NegInf else PosInf)"
| "js_mul PosInf PosInf = PosInf"
| "js_mul NegInf NegInf = PosInf"
| "js_mul PosInf NegInf = NegInf"
| "js_mul NegInf PosInf = NegInf"

text \<open>
  The operator \<^verbatim>\<open>/\<close>: a finite value over zero is an infinity of the sign of the
  dividend, zero over zero is NaN; nothing is raised.
\<close>

fun js_div :: "jsnum \<Rightarrow> jsnum \<Rightarrow> jsnum" where
  "js_div (Num a) (Num b) =
     (if b = 0 then (if a = 0 then NaN else if 0 < a then PosInf else NegInf)
      else Num (a / b))"
| "js_div NaN _ = NaN"
| "js_div _ NaN = NaN"
| "js_div (Num a) PosInf = Num 0"
| "js_div (Num a) NegInf = Num 0"
| "js_div PosInf (Num b) = (if 0 \<le> b then PosInf else NegInf)"
| "js_div NegInf (Num b) = (if 0 \<le> b then NegInf else PosInf)"
| "js_div _ _ = NaN"

text \<open>Rounding towards zero, as the remainder operator uses it.\<close>

definition trunc :: "rat \<Rightarrow> int" where
  "trunc r = (if 0 \<le> r then \<lfloor>r\<rfloor> else \<lceil>r\<rceil>)"

text \<open>
  The operator \<^verbatim>\<open>%\<close>: the remainder has the sign of the dividend; it is NaN when
  the dividend is not finite or the divisor is zero, and the dividend itself when
  the divisor is an infinity.
\<close>

fun js_mod :: "jsnum \<Rightarrow> jsnum \<Rightarrow> jsnum" where
  "js_mod (Num a) (Num b) = (if b = 0 then NaN else Num (a - b * of_int (trunc (a / b))))"
| "js_mod (Num a) PosInf = Num a"
| "js_mod (Num a) NegInf = Num a"
| "js_mod _ _ = NaN"

fun Math_ceil :: "jsnum \<Rightarrow> jsnum" where
  "Math_ceil (Num a) = Num (of_int \<lceil>a\<rceil>)"
| "Math_ceil x = x"

fun Math_floor :: "jsnum \<Rightarrow> jsnum" where
  "Math_floor (Num a) = Num (of_int \<lfloor>a\<rfloor>)"
| "Math_floor x = x"

text \<open>The comparison \<^verbatim>\<open><\<close>; every comparison with NaN is false.\<close>

fun js_lt :: "jsnum \<Rightarrow> jsnum \<Rightarrow> bool" where
  "js_lt (Num a) (Num b) = (a < b)"
| "js_lt NaN _ = False"
| "js_lt _ NaN = False"
| "js_lt NegInf NegInf = False"
| "js_lt NegInf _ = True"
| "js_lt _ NegInf = False"
| "js_lt PosInf _ = False"
| "js_lt _ PosInf = True"

definition js_gt :: "jsnum \<Rightarrow> jsnum \<Rightarrow> bool" where
  "js_gt a b = js_lt b a"

text \<open>The operator \<^verbatim>\<open>!==\<close> on two numbers: NaN differs from everything, itself included.\<close>

definition js_strict_neq :: "jsnum \<Rightarrow> jsnum \<Rightarrow> bool" where
  "js_strict_neq a b = (a = NaN \<or> b = NaN \<or> a \<noteq> b)"

section \<open>Data model\<close>

text \<open>A value that is either \<^verbatim>\<open>null\<close> or present (\<^verbatim>\<open>T | null\<close>).\<close>

datatype 'a nullable = Null | Val 'a

text \<open>
  The identity value of a document: the twelve bytes of an ObjectId, kept as their
  24 lower-case hexadecimal digits (what \<^verbatim>\<open>toHexString\<close> prints).
\<close>

datatype ObjectId = ObjectId (hex: string)

text \<open>
  A Date, by its UTC calendar reading; the reading determines the instant. A Date
  object can also be invalid (its time value is NaN).
\<close>

datatype Date = InvalidDate
  | UTC (year: int) (month: nat) (day: nat) (hours: nat) (minutes: nat) (seconds: nat) (millis: nat)

text \<open>
  A number stored in a document, by its shortest decimal reading, which is how
  \<^verbatim>\<open>Number::toString\<close> identifies a finite number other than zero: the sign, the
  decimal digits \<open>s\<close> (as few as tell the number from its neighbours) and the
  position \<open>n\<close> of the decimal point, the number being \<open>0.s \<times> 10^n\<close>. So 9.99 is
  \<open>NumDec False ''999'' 1\<close>, 1200 is \<open>NumDec False ''12'' 4\<close> and \<open>10^21\<close> is
  \<open>NumDec False ''1'' 22\<close>.
\<close>

datatype numval = NumNaN | NumInf bool | NumZero | NumDec bool string int

text \<open>
  The values of a document's fields: Date objects, and every other value. The
  primitives and the ObjectId are kept as they are. Any other value (an array, a
  nested document, a Buffer, a Decimal128 ...) is \<open>SOther\<close>, given by the string
  that \<^verbatim>\<open>String\<close> yields for it through its own conversion: the elements joined
  with commas for an array, \<^verbatim>\<open>[object Object]\<close> for a plain object.
\<close>

datatype scalar = SString string | SNumber numval | SBool bool | SNull | SUndefined
  | SObjectId ObjectId | SOther string

datatype fieldval = VDate Date | VScalar scalar

text \<open>
  The operators of a filter clause. The caller's filter is opaque to the paginators;
  the cursor strategy writes \<^verbatim>\<open>{ $gt: v }\<close> and \<^verbatim>\<open>{ $lt: v }\<close> clauses into it.
\<close>

datatype cond = Equals fieldval | Gt fieldval | Lt fieldval | Gte fieldval | Lte fieldval

text \<open>
  A filter object and a sort object, as their own enumerable properties in the order
  \<^verbatim>\<open>Object.keys\<close> lists them.
\<close>

type_synonym FilterQuery = "(string \<times> cond) list"

text \<open>mongoose's \<^verbatim>\<open>SortOrder\<close>: \<^verbatim>\<open>-1 | 1 | 'asc' | 'ascending' | 'desc' | 'descending'\<close>.\<close>

datatype SortOrder = Minus1 | Plus1 | Asc | Ascending | Desc | Descending

type_synonym SortSpec = "(string \<times> SortOrder) list"

datatype Projection = ProjString string | ProjArray "string list" | ProjRecord "(string \<times> bool) list"

datatype PopulateOptions = PopulateOne string | PopulateMany "string list"

record IPaginateArgs =
  filter :: "FilterQuery option"
  sort :: "SortSpec option"
  projection :: "Projection option"
  populate :: "PopulateOptions option"
  lean :: "bool option"

text \<open>
  A document: its \<^verbatim>\<open>_id\<close> (mongoose's default ObjectId; undefined when the
  projection leaves it out) and its other fields.
\<close>

record Doc =
  doc_id :: "ObjectId option"
  doc_fields :: "(string \<times> fieldval) list"

record IPaginationMeta =
  total :: "jsnum option"
  lastPage :: "jsnum option"
  currentPage :: "jsnum option"
  perPage :: "jsnum option"
  prev :: "jsnum nullable option"
  "next" :: "jsnum nullable option"
  nextCursor :: "string nullable option"

record IPaginationResult =
  data :: "Doc list"
  meta :: IPaginationMeta

text \<open>
  What a call can throw: the package's own \<^verbatim>\<open>MongoosePaginatorError\<close> with its
  message, the \<^verbatim>\<open>BSONError\<close> of the ObjectId constructor, the \<^verbatim>\<open>RangeError\<close> of
  \<^verbatim>\<open>toISOString\<close>, or a failure of the collection, which is passed on unchanged.
\<close>

datatype error = MongoosePaginatorError string | BSONError string | RangeError string
  | CollectionError string

section \<open>The collection\<close>

text \<open>
  The query a paginator builds with the chain
  \<^verbatim>\<open>find(..).sort(..).skip(..).limit(..).populate(..).select(..)\<close> and \<^verbatim>\<open>lean()\<close>.
  \<open>q_sort\<close> is \<open>None\<close> when \<^verbatim>\<open>sort(undefined)\<close> was called and \<open>q_skip\<close> is
  \<open>None\<close> when \<^verbatim>\<open>skip\<close> was not called.
\<close>

record Query =
  q_filter :: FilterQuery
  q_sort :: "SortSpec option"
  q_skip :: "jsnum option"
  q_limit :: jsnum
  q_populate :: PopulateOptions
  q_select :: Projection
  q_lean :: bool

text \<open>
  The mongoose model, an external collaborator: what awaiting a query yields and what
  \<^verbatim>\<open>countDocuments\<close> yields. Both can reject.
\<close>

record Model =
  exec :: "Query \<Rightarrow> error + Doc list"
  countDocuments :: "FilterQuery \<Rightarrow> error + jsnum"

text \<open>The queries a call of \<^verbatim>\<open>paginate\<close> sends to the collection, in order.\<close>

datatype call = Find Query | CountDocuments FilterQuery

text \<open>
  \<^verbatim>\<open>await Promise.all([a, b])\<close>. Both operations are started; the result is the pair
  of their values, or a rejection. When both reject, \<^verbatim>\<open>Promise.all\<close> reports the
  rejection that arrives first; the model reports that of the first operand, and no
  property below is about a call in which both reject.
\<close>

definition Promise_all :: "error + 'a \<Rightarrow> error + 'b \<Rightarrow> error + ('a \<times> 'b)" where
  "Promise_all a b =
     (case a of Inl e \<Rightarrow> Inl e
      | Inr x \<Rightarrow> (case b of Inl e \<Rightarrow> Inl e | Inr y \<Rightarrow> Inr (x, y)))"

text \<open>The operands of \<^verbatim>\<open>||\<close> with their defaults. An object is always truthy.\<close>

definition filter_or_empty :: "IPaginateArgs \<Rightarrow> FilterQuery" where
  "filter_or_empty a = (case filter a of None \<Rightarrow> [] | Some f \<Rightarrow> f)"

definition populate_or_empty :: "IPaginateArgs \<Rightarrow> PopulateOptions" where
  "populate_or_empty a = (case populate a of None \<Rightarrow> PopulateMany [] | Some p \<Rightarrow> p)"

text \<open>The projection may be a string, and the empty string is falsy.\<close>

definition projection_or_empty :: "IPaginateArgs \<Rightarrow> Projection" where
  "projection_or_empty a =
     (case projection a of None \<Rightarrow> ProjRecord []
      | Some (ProjString s) \<Rightarrow> (if s = [] then ProjRecord [] else ProjString s)
      | Some p \<Rightarrow> p)"

definition lean_truthy :: "IPaginateArgs \<Rightarrow> bool" where
  "lean_truthy a = (case lean a of None \<Rightarrow> False | Some b \<Rightarrow> b)"

section \<open>BasePaginator\<close>

record BasePaginator =
  model :: Model
  args :: IPaginateArgs

definition default_args :: IPaginateArgs where
  "default_args = \<lparr>filter = Some [], sort = Some [(''createdAt'', Minus1)],
     projection = None, populate = None, lean = Some True\<rparr>"

definition BasePaginator_new :: "Model \<Rightarrow> IPaginateArgs option \<Rightarrow> BasePaginator" where
  "BasePaginator_new m a =
     \<lparr>model = m, args = (case a of None \<Rightarrow> default_args | Some x \<Rightarrow> x)\<rparr>"

definition BasePaginator_setArgs :: "IPaginateArgs \<Rightarrow> BasePaginator \<Rightarrow> BasePaginator" where
  "BasePaginator_setArgs a this = this\<lparr>args := a\<rparr>"

definition BasePaginator_paginate :: "BasePaginator \<Rightarrow> call list \<times> (error + IPaginationResult)" where
  "BasePaginator_paginate this = ([], Inl (MongoosePaginatorError ''Method not implemented''))"

section \<open>PageNumberPaginator\<close>

record PageNumberPaginator = BasePaginator +
  page :: jsnum
  limit :: jsnum

definition PageNumberPaginator_new ::
  "Model \<Rightarrow> jsnum option \<Rightarrow> jsnum option \<Rightarrow> IPaginateArgs option \<Rightarrow> PageNumberPaginator" where
  "PageNumberPaginator_new m p l a =
     \<lparr>model = m, args = (case a of None \<Rightarrow> default_args | Some x \<Rightarrow> x),
      page = (case p of None \<Rightarrow> Num 1 | Some x \<Rightarrow> x),
      limit = (case l of None \<Rightarrow> Num 10 | Some x \<Rightarrow> x)\<rparr>"

definition getSkip :: "PageNumberPaginator \<Rightarrow> jsnum" where
  "getSkip this = js_mul (js_sub (page this) (Num 1)) (limit this)"

text \<open>
  The \<^verbatim>\<open>meta\<close> object that the page-number and the offset strategy return; both write
  it in the same way from the total, the last page, the current page and the limit.
\<close>

definition page_meta :: "jsnum \<Rightarrow> jsnum \<Rightarrow> jsnum \<Rightarrow> jsnum \<Rightarrow> IPaginationMeta" where
  "page_meta tot lastP currentP lmt =
     \<lparr>total = Some tot, lastPage = Some lastP, currentPage = Some currentP,
      perPage = Some lmt,
      prev = Some (if js_gt currentP (Num 1) then Val (js_sub currentP (Num 1)) else Null),
      next = Some (if js_lt currentP lastP then Val (js_add currentP (Num 1)) else Null),
      nextCursor = None\<rparr>"

definition PageNumberPaginator_query :: "PageNumberPaginator \<Rightarrow> Query" where
  "PageNumberPaginator_query this =
     \<lparr>q_filter = filter_or_empty (args this),
      q_sort = Some (case sort (args this) of None \<Rightarrow> [(''createdAt'', Minus1)] | Some s \<Rightarrow> s),
      q_skip = Some (getSkip this),
      q_limit = limit this,
      q_populate = populate_or_empty (args this),
      q_select = projection_or_empty (args this),
      q_lean = lean_truthy (args this)\<rparr>"

definition PageNumberPaginator_paginate ::
  "PageNumberPaginator \<Rightarrow> call list \<times> (error + IPaginationResult)" where
  "PageNumberPaginator_paginate this =
     (let query = PageNumberPaginator_query this;
          cnt = filter_or_empty (args this)
      in ([Find query, CountDocuments cnt],
          (case Promise_all (exec (model this) query) (countDocuments (model this) cnt) of
             Inl e \<Rightarrow> Inl e
           | Inr (items, tot) \<Rightarrow>
               (let lastP = Math_ceil (js_div tot (limit this));
                    currentP = page this
                in Inr \<lparr>data = items, meta = page_meta tot lastP currentP (limit this)\<rparr>))))"

definition PageNumberPaginator_setPage :: "jsnum \<Rightarrow> PageNumberPaginator \<Rightarrow> PageNumberPaginator" where
  "PageNumberPaginator_setPage p this = this\<lparr>page := p\<rparr>"

definition PageNumberPaginator_setLimit :: "jsnum \<Rightarrow> PageNumberPaginator \<Rightarrow> PageNumberPaginator" where
  "PageNumberPaginator_setLimit l this = this\<lparr>limit := l\<rparr>"

section \<open>OffsetPaginator\<close>

text \<open>The private field \<^verbatim>\<open>limit\<close> of this class is \<open>olimit\<close> here.\<close>

record OffsetPaginator = BasePaginator +
  offset :: jsnum
  olimit :: jsnum

definition offset_default_args :: IPaginateArgs where
  "offset_default_args = \<lparr>filter = Some [], sort = Some [],
     projection = None, populate = None, lean = Some True\<rparr>"

text \<open>The constructor throws before anything is stored.\<close>

definition OffsetPaginator_new ::
  "Model \<Rightarrow> jsnum \<Rightarrow> jsnum \<Rightarrow> IPaginateArgs option \<Rightarrow> error + OffsetPaginator" where
  "OffsetPaginator_new m off lmt a =
     (if js_strict_neq (js_mod off lmt) (Num 0)
      then Inl (MongoosePaginatorError ''Offset must be a multiple of limit)'')
      else Inr \<lparr>model = m, args = (case a of None \<Rightarrow> offset_default_args | Some x \<Rightarrow> x),
                offset = off, olimit = lmt\<rparr>)"

definition OffsetPaginator_setOffset :: "jsnum \<Rightarrow> OffsetPaginator \<Rightarrow> OffsetPaginator" where
  "OffsetPaginator_setOffset off this = this\<lparr>offset := off\<rparr>"

definition OffsetPaginator_setLimit :: "jsnum \<Rightarrow> OffsetPaginator \<Rightarrow> OffsetPaginator" where
  "OffsetPaginator_setLimit lmt this = this\<lparr>olimit := lmt\<rparr>"

definition OffsetPaginator_query :: "OffsetPaginator \<Rightarrow> Query" where
  "OffsetPaginator_query this =
     \<lparr>q_filter = filter_or_empty (args this),
      q_sort = sort (args this),
      q_skip = Some (offset this),
      q_limit = olimit this,
      q_populate = populate_or_empty (args this),
      q_select = projection_or_empty (args this),
      q_lean = lean_truthy (args this)\<rparr>"

definition OffsetPaginator_paginate ::
  "OffsetPaginator \<Rightarrow> call list \<times> (error + IPaginationResult)" where
  "OffsetPaginator_paginate this =
     (let query = OffsetPaginator_query this;
          cnt = filter_or_empty (args this)
      in ([Find query, CountDocuments cnt],
          (case Promise_all (exec (model this) query) (countDocuments (model this) cnt) of
             Inl e \<Rightarrow> Inl e
           | Inr (items, tot) \<Rightarrow>
               (let lastP = Math_ceil (js_div tot (olimit this));
                    currentP = js_add (Math_floor (js_div (offset this) (olimit this))) (Num 1)
                in Inr \<lparr>data = items, meta = page_meta tot lastP currentP (olimit this)\<rparr>))))"

section \<open>Strings of values\<close>

definition digit_char :: "nat \<Rightarrow> char" where
  "digit_char n = char_of (48 + n)"


definition digit_val :: "char \<Rightarrow> nat" where
  "digit_val c = of_char c - 48"

fun nat_digits :: "nat \<Rightarrow> string" where
  "nat_digits n = (if n < 10 then [digit_char n] else nat_digits (n div 10) @ [digit_char (n mod 10)])"

text \<open>
  \<^verbatim>\<open>Number::toString\<close> on the digits \<open>s\<close> (there are \<open>k\<close> of them) and the position
  \<open>n\<close> of the decimal point: the digits padded with zeros for \<open>k \<le> n \<le> 21\<close>, a
  decimal point inside the digits for \<open>0 < n \<le> 21\<close>, a leading \<^verbatim>\<open>0.\<close> for
  \<open>-6 < n \<le> 0\<close>, and the exponent notation otherwise.
\<close>

definition dec_string :: "string \<Rightarrow> int \<Rightarrow> string" where
  "dec_string ds n =
     (let k = int (length ds) in
      if k \<le> n \<and> n \<le> 21 then ds @ replicate (nat (n - k)) CHR ''0''
      else if 0 < n \<and> n \<le> 21 then take (nat n) ds @ ''.'' @ drop (nat n) ds
      else if - 6 < n \<and> n \<le> 0 then ''0.'' @ replicate (nat (- n)) CHR ''0'' @ ds
      else
        (let e = n - 1;
             es = (if e < 0 then ''-'' else ''+'') @ nat_digits (nat \<bar>e\<bar>)
         in if k = 1 then ds @ ''e'' @ es
            else take 1 ds @ ''.'' @ drop 1 ds @ ''e'' @ es))"

text \<open>\<^verbatim>\<open>String(x)\<close> for a number \<open>x\<close>.\<close>

fun Number_toString :: "numval \<Rightarrow> string" where
  "Number_toString NumNaN = ''NaN''"
| "Number_toString (NumInf neg) = (if neg then ''-Infinity'' else ''Infinity'')"
| "Number_toString NumZero = ''0''"
| "Number_toString (NumDec neg ds n) = (if neg then ''-'' else []) @ dec_string ds n"

text \<open>\<^verbatim>\<open>String(v)\<close> on a value that is not a Date.\<close>

fun js_String :: "scalar \<Rightarrow> string" where
  "js_String (SString s) = s"
| "js_String (SNumber x) = Number_toString x"
| "js_String (SBool b) = (if b then ''true'' else ''false'')"
| "js_String SNull = ''null''"
| "js_String SUndefined = ''undefined''"
| "js_String (SObjectId i) = hex i"
| "js_String (SOther s) = s"

subsection \<open>ObjectId\<close>

definition is_hex_digit :: "char \<Rightarrow> bool" where
  "is_hex_digit c = (c \<in> set ''0123456789abcdefABCDEF'')"

definition lower_hex :: "char \<Rightarrow> char" where
  "lower_hex c = (case map_of (zip ''ABCDEF'' ''abcdef'') c of None \<Rightarrow> c | Some d \<Rightarrow> d)"

text \<open>
  \<^verbatim>\<open>new Types.ObjectId(s)\<close> on a string: a string of 24 hexadecimal digits is read,
  any other string makes the constructor throw.
\<close>

definition ObjectId_new :: "string \<Rightarrow> error + ObjectId" where
  "ObjectId_new s =
     (if length s = 24 \<and> list_all is_hex_digit s then Inr (ObjectId (map lower_hex s))
      else Inl (BSONError ''input must be a 24 character hex string, 12 byte Uint8Array, or an integer''))"

subsection \<open>Dates\<close>

text \<open>The decimal digits of \<open>n\<close> in a field of width \<open>w\<close>, with leading zeros.\<close>

fun pad :: "nat \<Rightarrow> nat \<Rightarrow> string" where
  "pad 0 n = []"
| "pad (Suc w) n = digit_char ((n div 10 ^ w) mod 10) # pad w (n mod 10 ^ w)"

definition year_string :: "int \<Rightarrow> string" where
  "year_string y =
     (if 0 \<le> y \<and> y \<le> 9999 then pad 4 (nat y)
      else (if y < 0 then CHR ''-'' else CHR ''+'') # pad 6 (nat \<bar>y\<bar>))"

text \<open>
  \<^verbatim>\<open>Date.prototype.toISOString\<close>: \<^verbatim>\<open>YYYY-MM-DDTHH:mm:ss.sssZ\<close>, with a sign and six
  digits for a year outside 0 .. 9999; a RangeError on an invalid Date.
\<close>

fun toISOString :: "Date \<Rightarrow> error + string" where
  "toISOString InvalidDate = Inl (RangeError ''Invalid time value'')"
| "toISOString (UTC y mo d h mi s ms) =
     Inr (year_string y @ ''-'' @ pad 2 mo @ ''-'' @ pad 2 d @ ''T'' @ pad 2 h @ '':'' @ pad 2 mi
          @ '':'' @ pad 2 s @ ''.'' @ pad 3 ms @ ''Z'')"



text \<open>Chronological order of two calendar readings.\<close>

fun date_lt :: "Date \<Rightarrow> Date \<Rightarrow> bool" where
  "date_lt (UTC y mo d h mi s ms) (UTC y' mo' d' h' mi' s' ms') =
     (y < y' \<or> (y = y' \<and> (mo < mo' \<or> (mo = mo' \<and> (d < d' \<or> (d = d' \<and> (h < h' \<or> (h = h' \<and>
       (mi < mi' \<or> (mi = mi' \<and> (s < s' \<or> (s = s' \<and> ms < ms'))))))))))))"
| "date_lt _ _ = False"







section \<open>CursorPaginator\<close>

text \<open>The private field \<^verbatim>\<open>limit\<close> of this class is \<open>climit\<close> here.\<close>

record CursorPaginator = BasePaginator +
  cursor :: "string nullable"
  climit :: jsnum

definition cursor_default_args :: IPaginateArgs where
  "cursor_default_args = \<lparr>filter = Some [], sort = None,
     projection = None, populate = None, lean = Some True\<rparr>"

definition CursorPaginator_new ::
  "Model \<Rightarrow> string nullable \<Rightarrow> jsnum \<Rightarrow> IPaginateArgs option \<Rightarrow> CursorPaginator" where
  "CursorPaginator_new m c l a =
     \<lparr>model = m, args = (case a of None \<Rightarrow> cursor_default_args | Some x \<Rightarrow> x),
      cursor = c, climit = l\<rparr>"

definition CursorPaginator_setCursor :: "string \<Rightarrow> CursorPaginator \<Rightarrow> CursorPaginator" where
  "CursorPaginator_setCursor c this = this\<lparr>cursor := Val c\<rparr>"

definition CursorPaginator_setLimit :: "jsnum \<Rightarrow> CursorPaginator \<Rightarrow> CursorPaginator" where
  "CursorPaginator_setLimit l this = this\<lparr>climit := l\<rparr>"

text \<open>\<^verbatim>\<open>this.args.sort || { _id: 1 }\<close>; a sort object, even an empty one, is truthy.\<close>

definition sortConfig :: "CursorPaginator \<Rightarrow> SortSpec" where
  "sortConfig this = (case sort (args this) of None \<Rightarrow> [(''_id'', Plus1)] | Some s \<Rightarrow> s)"

text \<open>
  \<^verbatim>\<open>Object.keys(sortConfig)[0]\<close> and \<^verbatim>\<open>Object.values(sortConfig)[0]\<close>: undefined
  for an empty sort object.
\<close>

definition sortField :: "CursorPaginator \<Rightarrow> string option" where
  "sortField this = (case sortConfig this of [] \<Rightarrow> None | (k, v) # _ \<Rightarrow> Some k)"

definition sortOrder :: "CursorPaginator \<Rightarrow> SortOrder option" where
  "sortOrder this = (case sortConfig this of [] \<Rightarrow> None | (k, v) # _ \<Rightarrow> Some v)"

text \<open>A value used as a property key; undefined is the key \<^verbatim>\<open>"undefined"\<close>.\<close>

definition prop_key :: "string option \<Rightarrow> string" where
  "prop_key k = (case k of None \<Rightarrow> ''undefined'' | Some s \<Rightarrow> s)"

text \<open>
  The first part of \<^verbatim>\<open>paginate\<close>: the filter is spread into a fresh object, and
  when \<^verbatim>\<open>this.cursor\<close> is truthy (neither null nor the empty string) the range
  clause is assigned to the property of the sort field, replacing a clause that
  the caller may have put there. \<^verbatim>\<open>sortOrder === 1\<close> holds for the number 1 only.
\<close>

definition cursor_filter :: "CursorPaginator \<Rightarrow> error + FilterQuery" where
  "cursor_filter this =
     (let flt = filter_or_empty (args this) in
      case cursor this of
        Null \<Rightarrow> Inr flt
      | Val c \<Rightarrow>
          if c = [] then Inr flt
          else if sortField this = Some ''_id'' then
            (case ObjectId_new c of
               Inl e \<Rightarrow> Inl e
             | Inr oid \<Rightarrow>
                 if sortOrder this = Some Plus1
                 then Inr (AList.update ''_id'' (Gt (VScalar (SObjectId oid))) flt)
                 else Inr (AList.update ''_id'' (Lt (VScalar (SObjectId oid))) flt))
          else
            (if sortOrder this = Some Plus1
             then Inr (AList.update (prop_key (sortField this)) (Gt (VScalar (SString c))) flt)
             else Inr (AList.update (prop_key (sortField this)) (Lt (VScalar (SString c))) flt)))"

definition CursorPaginator_query :: "CursorPaginator \<Rightarrow> FilterQuery \<Rightarrow> Query" where
  "CursorPaginator_query this flt =
     \<lparr>q_filter = flt,
      q_sort = Some (sortConfig this),
      q_skip = None,
      q_limit = climit this,
      q_populate = populate_or_empty (args this),
      q_select = projection_or_empty (args this),
      q_lean = lean_truthy (args this)\<rparr>"

text \<open>Reading a property of a returned row; a missing property is undefined.\<close>

definition get_prop :: "Doc \<Rightarrow> string \<Rightarrow> fieldval" where
  "get_prop d k =
     (if k = ''_id'' then (case doc_id d of None \<Rightarrow> VScalar SUndefined | Some i \<Rightarrow> VScalar (SObjectId i))
      else (case map_of (doc_fields d) k of None \<Rightarrow> VScalar SUndefined | Some v \<Rightarrow> v))"

text \<open>
  The last part of \<^verbatim>\<open>paginate\<close>: \<^verbatim>\<open>items[items.length - 1]\<close> is undefined for an
  empty page, and a row is an object, so it is truthy.
\<close>

definition next_cursor :: "CursorPaginator \<Rightarrow> Doc list \<Rightarrow> error + string nullable" where
  "next_cursor this items =
     (if items = [] then Inr Null
      else
        (let lastItem = last items in
         if sortField this = Some ''_id''
         then Inr (Val (js_String (case doc_id lastItem of None \<Rightarrow> SUndefined | Some i \<Rightarrow> SObjectId i)))
         else
           (case get_prop lastItem (prop_key (sortField this)) of
              VDate dt \<Rightarrow> (case toISOString dt of Inl e \<Rightarrow> Inl e | Inr s \<Rightarrow> Inr (Val s))
            | VScalar v \<Rightarrow> Inr (Val (js_String v)))))"

definition cursor_meta :: "string nullable \<Rightarrow> IPaginationMeta" where
  "cursor_meta nc = \<lparr>total = None, lastPage = None, currentPage = None, perPage = None,
     prev = None, next = None, nextCursor = Some nc\<rparr>"

definition CursorPaginator_paginate ::
  "CursorPaginator \<Rightarrow> call list \<times> (error + IPaginationResult)" where
  "CursorPaginator_paginate this =
     (case cursor_filter this of
        Inl e \<Rightarrow> ([], Inl e)
      | Inr flt \<Rightarrow>
          (let query = CursorPaginator_query this flt in
           ([Find query],
            (case exec (model this) query of
               Inl e \<Rightarrow> Inl e
             | Inr items \<Rightarrow>
                 (case next_cursor this items of
                    Inl e \<Rightarrow> Inl e
                  | Inr nc \<Rightarrow> Inr \<lparr>data = items, meta = cursor_meta nc\<rparr>)))))"

section \<open>A collection held in memory\<close>

text \<open>
  A reference implementation of the collaborator, for running the paginators on
  concrete collections: the documents in their natural order, filtered by every
  clause of the filter, sorted by the sort object, then skipped and limited. An
  operand is compared with a field as it is given and only with a field of its own
  type (mongoose's casting of an operand to the schema type of a Number or Date
  path is not part of it). Projection, population and \<^verbatim>\<open>lean\<close> leave the rows as
  they are.
\<close>

fun str_lt :: "string \<Rightarrow> string \<Rightarrow> bool" where
  "str_lt [] [] = False"
| "str_lt [] (y # ys) = True"
| "str_lt (x # xs) [] = False"
| "str_lt (x # xs) (y # ys) =
     ((of_char x :: nat) < of_char y \<or> (x = y \<and> str_lt xs ys))"

text \<open>
  The order of two stored numbers: NaN first, then minus infinity, the finite
  numbers by the value of their decimal reading (on the shortest readings of two
  doubles that is the order of the doubles), then infinity.
\<close>

definition digits_value :: "string \<Rightarrow> nat" where
  "digits_value ds = foldl (\<lambda>a c. 10 * a + digit_val c) 0 ds"

fun num_class :: "numval \<Rightarrow> nat" where
  "num_class NumNaN = 0"
| "num_class (NumInf neg) = (if neg then 1 else 3)"
| "num_class _ = 2"

fun num_value :: "numval \<Rightarrow> rat" where
  "num_value (NumDec neg ds n) =
     (if neg then - 1 else 1) * of_nat (digits_value ds)
       * (if int (length ds) \<le> n then 10 ^ nat (n - int (length ds))
          else 1 / 10 ^ nat (int (length ds) - n))"
| "num_value _ = 0"

definition num_lt :: "numval \<Rightarrow> numval \<Rightarrow> bool" where
  "num_lt a b = (num_class a < num_class b
     \<or> (num_class a = 2 \<and> num_class b = 2 \<and> num_value a < num_value b))"

text \<open>
  The position of a value's type in the comparison order of the store. The values
  of \<open>SOther\<close> stand between the strings and the ObjectIds and are not ordered
  among themselves by this collection.
\<close>

fun type_rank :: "fieldval \<Rightarrow> nat" where
  "type_rank (VScalar SUndefined) = 0"
| "type_rank (VScalar SNull) = 0"
| "type_rank (VScalar (SNumber _)) = 1"
| "type_rank (VScalar (SString _)) = 2"
| "type_rank (VScalar (SOther _)) = 3"
| "type_rank (VScalar (SObjectId _)) = 4"
| "type_rank (VScalar (SBool _)) = 5"
| "type_rank (VDate _) = 6"

fun same_type_lt :: "fieldval \<Rightarrow> fieldval \<Rightarrow> bool" where
  "same_type_lt (VScalar (SNumber a)) (VScalar (SNumber b)) = num_lt a b"
| "same_type_lt (VScalar (SString a)) (VScalar (SString b)) = str_lt a b"
| "same_type_lt (VScalar (SObjectId a)) (VScalar (SObjectId b)) = str_lt (hex a) (hex b)"
| "same_type_lt (VScalar (SBool a)) (VScalar (SBool b)) = (\<not> a \<and> b)"
| "same_type_lt (VDate a) (VDate b) = date_lt a b"
| "same_type_lt _ _ = False"

definition value_lt :: "fieldval \<Rightarrow> fieldval \<Rightarrow> bool" where
  "value_lt a b = (type_rank a < type_rank b \<or> (type_rank a = type_rank b \<and> same_type_lt a b))"

fun matches_cond :: "fieldval \<Rightarrow> cond \<Rightarrow> bool" where
  "matches_cond v (Equals x) = (v = x)"
| "matches_cond v (Gt x) = (type_rank v = type_rank x \<and> same_type_lt x v)"
| "matches_cond v (Lt x) = (type_rank v = type_rank x \<and> same_type_lt v x)"
| "matches_cond v (Gte x) = (type_rank v = type_rank x \<and> \<not> same_type_lt v x)"
| "matches_cond v (Lte x) = (type_rank v = type_rank x \<and> \<not> same_type_lt x v)"

definition matches :: "FilterQuery \<Rightarrow> Doc \<Rightarrow> bool" where
  "matches flt d = list_all (\<lambda>(k, c). matches_cond (get_prop d k) c) flt"

fun ascending :: "SortOrder \<Rightarrow> bool" where
  "ascending Plus1 = True"
| "ascending Asc = True"
| "ascending Ascending = True"
| "ascending _ = False"

text \<open>Whether row \<open>a\<close> comes strictly before row \<open>b\<close> under a sort object.\<close>

fun doc_before :: "SortSpec \<Rightarrow> Doc \<Rightarrow> Doc \<Rightarrow> bool" where
  "doc_before [] a b = False"
| "doc_before ((k, ord) # rest) a b =
     (let x = get_prop a k; y = get_prop b k;
          lo = (if ascending ord then x else y); hi = (if ascending ord then y else x)
      in if value_lt lo hi then True
         else if value_lt hi lo then False
         else doc_before rest a b)"

text \<open>A stable insertion sort.\<close>

fun insert_doc :: "SortSpec \<Rightarrow> Doc \<Rightarrow> Doc list \<Rightarrow> Doc list" where
  "insert_doc spec x [] = [x]"
| "insert_doc spec x (y # ys) =
     (if doc_before spec y x then y # insert_doc spec x ys else x # y # ys)"

fun sort_docs :: "SortSpec \<Rightarrow> Doc list \<Rightarrow> Doc list" where
  "sort_docs spec [] = []"
| "sort_docs spec (x # xs) = insert_doc spec x (sort_docs spec xs)"

definition is_integer :: "rat \<Rightarrow> bool" where
  "is_integer r = (of_int \<lfloor>r\<rfloor> = r)"

text \<open>\<^verbatim>\<open>skip(n)\<close>: a non-negative integer; anything else is rejected by the store.\<close>

fun apply_skip :: "jsnum option \<Rightarrow> Doc list \<Rightarrow> error + Doc list" where
  "apply_skip None xs = Inr xs"
| "apply_skip (Some (Num r)) xs =
     (if is_integer r \<and> 0 \<le> r then Inr (drop (nat \<lfloor>r\<rfloor>) xs)
      else Inl (CollectionError ''skip must be a non-negative integer''))"
| "apply_skip (Some _) xs = Inl (CollectionError ''skip must be a non-negative integer'')"

text \<open>
  \<^verbatim>\<open>limit(n)\<close>: zero means no limit, and a negative limit is taken by its magnitude.
\<close>

fun apply_limit :: "jsnum \<Rightarrow> Doc list \<Rightarrow> error + Doc list" where
  "apply_limit (Num r) xs =
     (if is_integer r then (if r = 0 then Inr xs else Inr (take (nat \<bar>\<lfloor>r\<rfloor>\<bar>) xs))
      else Inl (CollectionError ''limit must be an integer''))"
| "apply_limit _ xs = Inl (CollectionError ''limit must be an integer'')"

definition run_query :: "Doc list \<Rightarrow> Query \<Rightarrow> error + Doc list" where
  "run_query docs q =
     (case apply_skip (q_skip q)
             (sort_docs (case q_sort q of None \<Rightarrow> [] | Some s \<Rightarrow> s) (List.filter (matches (q_filter q)) docs)) of
        Inl e \<Rightarrow> Inl e
      | Inr xs \<Rightarrow> apply_limit (q_limit q) xs)"

definition count_docs :: "Doc list \<Rightarrow> FilterQuery \<Rightarrow> error + jsnum" where
  "count_docs docs flt = Inr (Num (of_nat (length (List.filter (matches flt) docs))))"

definition collection :: "Doc list \<Rightarrow> Model" where
  "collection docs = \<lparr>exec = run_query docs, countDocuments = count_docs docs\<rparr>"

section \<open>Walking a collection with the cursor strategy\<close>

text \<open>
  The caller's loop: call \<^verbatim>\<open>paginate\<close>, collect the page, feed \<^verbatim>\<open>nextCursor\<close> back
  with \<^verbatim>\<open>setCursor\<close> and call again, until \<^verbatim>\<open>nextCursor\<close> is null. The first argument
  bounds the number of calls; a walk that needs more is \<open>OutOfFuel\<close>.
\<close>

datatype 'a run = Done 'a | OutOfFuel | Failed error

fun traverse :: "nat \<Rightarrow> CursorPaginator \<Rightarrow> Doc list run" where
  "traverse 0 this = OutOfFuel"
| "traverse (Suc n) this =
     (case snd (CursorPaginator_paginate this) of
        Inl e \<Rightarrow> Failed e
      | Inr r \<Rightarrow>
          (case nextCursor (meta r) of
             Some (Val c) \<Rightarrow>
               (case traverse n (CursorPaginator_setCursor c this) of
                  Done rest \<Rightarrow> Done (data r @ rest)
                | OutOfFuel \<Rightarrow> OutOfFuel
                | Failed e \<Rightarrow> Failed e)
           | _ \<Rightarrow> Done (data r)))"

section \<open>A sample collection\<close>

definition person :: "string \<Rightarrow> string \<Rightarrow> Doc" where
  "person i n = \<lparr>doc_id = Some (ObjectId i), doc_fields = [(''name'', VScalar (SString n))]\<rparr>"

definition people :: "Doc list" where
  "people = [person ''65f000000000000000000001'' ''ann'',
             person ''65f000000000000000000002'' ''bob'',
             person ''65f000000000000000000003'' ''cy'']"

definition by_id_desc :: IPaginateArgs where
  "by_id_desc = \<lparr>filter = Some [], sort = Some [(''_id'', Minus1)], projection = None,
     populate = None, lean = Some True\<rparr>"

definition by_name :: "SortOrder \<Rightarrow> IPaginateArgs" where
  "by_name ord = \<lparr>filter = Some [], sort = Some [(''name'', ord)], projection = None,
     populate = None, lean = Some True\<rparr>"

definition unnamed :: "Doc list" where
  "unnamed = [person ''65f000000000000000000004'' '''', person ''65f000000000000000000005'' ''dee'']"







section \<open>Notions for the walk\<close>

text \<open>A relation that is irreflexive, transitive and total on a set.\<close>

definition strict_linear_on :: "'a set \<Rightarrow> ('a \<Rightarrow> 'a \<Rightarrow> bool) \<Rightarrow> bool" where
  "strict_linear_on A R =
     ((\<forall>x\<in>A. \<not> R x x) \<and> (\<forall>x\<in>A. \<forall>y\<in>A. \<forall>z\<in>A. R x y \<longrightarrow> R y z \<longrightarrow> R x z)
      \<and> (\<forall>x\<in>A. \<forall>y\<in>A. x \<noteq> y \<longrightarrow> R x y \<or> R y x))"

definition is_lower_hex :: "char \<Rightarrow> bool" where
  "is_lower_hex c = (c \<in> set ''0123456789abcdef'')"

text \<open>
  The string of a document's sort key, when the key survives the way through the
  cursor: for \<^verbatim>\<open>_id\<close> an ObjectId, for another field a string that is not empty.
\<close>

definition cursor_key :: "string \<Rightarrow> Doc \<Rightarrow> string option" where
  "cursor_key k d =
     (if k = ''_id''
      then (case doc_id d of
              None \<Rightarrow> None
            | Some i \<Rightarrow> if length (hex i) = 24 \<and> list_all is_lower_hex (hex i) then Some (hex i) else None)
      else (case get_prop d k of
              VScalar (SString s) \<Rightarrow> if s = [] then None else Some s
            | _ \<Rightarrow> None))"

text \<open>The cursor that a page of such documents yields.\<close>

definition page_cursor :: "string \<Rightarrow> Doc list \<Rightarrow> string nullable" where
  "page_cursor k items = (if items = [] then Null else Val (the (cursor_key k (last items))))"

section \<open>Properties\<close>

text \<open>
  C10. \<^verbatim>\<open>paginate\<close> of the base class sends no query and always throws the
  package's error, with the message "Method not implemented".
\<close>

theorem base_paginate_not_implemented:
  "BasePaginator_paginate this = ([], Inl (MongoosePaginatorError ''Method not implemented''))"
  by (simp add: BasePaginator_paginate_def)

subsection \<open>Page-number strategy\<close>

lemma people_all: "List.filter (matches []) people = people"
  by (simp add: matches_def)

lemma sort_createdAt_people: "sort_docs [(''createdAt'', Minus1)] people = people"
  by (simp add: people_def person_def get_prop_def value_lt_def)

text \<open>
  C8. With an integer page \<open>p \<ge> 1\<close> and an integer limit \<open>l \<ge> 1\<close>, both safe
  integers with a safe product \<open>(p - 1) * l\<close>, and a collection that answers the find
  with \<open>items\<close> and the count with a safe integer \<open>t\<close>: the find query carries
  \<open>skip = (p - 1) * l\<close>, and the result has \<open>lastPage = ceil (t / l)\<close>, which is 0 when
  \<open>t\<close> is 0, \<open>currentPage = p\<close>, \<open>prev\<close> null exactly when \<open>p \<le> 1\<close> and else \<open>p - 1\<close>,
  \<open>next\<close> null exactly when \<open>p \<ge> lastPage\<close> and else \<open>p + 1\<close>.
\<close>

theorem page_number_meta:
  assumes "page this = Num (of_int p)" and "limit this = Num (of_int l)"
    and "1 \<le> p" and "1 \<le> l"
    and "exec (model this) (PageNumberPaginator_query this) = Inr items"
    and "countDocuments (model this) (filter_or_empty (args this)) = Inr (Num (of_nat t))"
    and "safe_integer p" and "safe_integer l" and "safe_integer ((p - 1) * l)"
    and "safe_integer (int t)"
  shows "q_skip (PageNumberPaginator_query this) = Some (Num (of_int ((p - 1) * l)))
    \<and> PageNumberPaginator_paginate this =
       ([Find (PageNumberPaginator_query this), CountDocuments (filter_or_empty (args this))],
        Inr \<lparr>data = items,
             meta = \<lparr>total = Some (Num (of_nat t)),
                     lastPage = Some (Num (of_int \<lceil>(of_nat t :: rat) / of_int l\<rceil>)),
                     currentPage = Some (Num (of_int p)),
                     perPage = Some (Num (of_int l)),
                     prev = Some (if p \<le> 1 then Null else Val (Num (of_int (p - 1)))),
                     next = Some (if \<lceil>(of_nat t :: rat) / of_int l\<rceil> \<le> p then Null
                                  else Val (Num (of_int (p + 1)))),
                     nextCursor = None\<rparr>\<rparr>)
    \<and> (t = 0 \<longrightarrow> \<lceil>(of_nat t :: rat) / of_int l\<rceil> = 0)"
proof -
  from assms(4) have l0: "(of_int l :: rat) \<noteq> 0" by simp
  have skip: "q_skip (PageNumberPaginator_query this) = Some (Num (of_int ((p - 1) * l)))"
    by (simp add: PageNumberPaginator_query_def getSkip_def js_sub_def assms(1,2))
  have lastp: "Math_ceil (js_div (Num (of_nat t)) (limit this)) = Num (of_int \<lceil>(of_nat t :: rat) / of_int l\<rceil>)"
    using l0 by (simp add: assms(2))
  have prv: "(if js_gt (Num (of_int p)) (Num 1) then Val (js_sub (Num (of_int p)) (Num 1)) else Null)
     = (if p \<le> 1 then Null else Val (Num (of_int (p - 1))))"
    by (auto simp: js_gt_def js_sub_def)
  have nxt: "(if js_lt (Num (of_int p)) (Num (of_int \<lceil>(of_nat t :: rat) / of_int l\<rceil>))
       then Val (js_add (Num (of_int p)) (Num 1)) else Null)
     = (if \<lceil>(of_nat t :: rat) / of_int l\<rceil> \<le> p then Null else Val (Num (of_int (p + 1))))"
    by auto
  have pag: "PageNumberPaginator_paginate this =
       ([Find (PageNumberPaginator_query this), CountDocuments (filter_or_empty (args this))],
        Inr \<lparr>data = items,
             meta = page_meta (Num (of_nat t)) (Num (of_int \<lceil>(of_nat t :: rat) / of_int l\<rceil>))
                      (Num (of_int p)) (Num (of_int l))\<rparr>)"
    using lastp by (simp add: PageNumberPaginator_paginate_def Let_def Promise_all_def assms(1,2,5,6))
  show ?thesis
    using skip pag prv nxt by (simp add: page_meta_def)
qed

theorem page_number_meta_witness:
  "PageNumberPaginator_paginate (PageNumberPaginator_new (collection people) (Some (Num 2)) (Some (Num 2)) None)
    = ([Find \<lparr>q_filter = [], q_sort = Some [(''createdAt'', Minus1)], q_skip = Some (Num 2),
               q_limit = Num 2, q_populate = PopulateMany [], q_select = ProjRecord [], q_lean = True\<rparr>,
        CountDocuments []],
       Inr \<lparr>data = [person ''65f000000000000000000003'' ''cy''],
            meta = \<lparr>total = Some (Num 3), lastPage = Some (Num 2), currentPage = Some (Num 2),
                    perPage = Some (Num 2), prev = Some (Val (Num 1)), next = Some Null,
                    nextCursor = None\<rparr>\<rparr>)"
proof -
  let ?P = "PageNumberPaginator_new (collection people) (Some (Num 2)) (Some (Num 2)) None"
  have q: "PageNumberPaginator_query ?P = \<lparr>q_filter = [], q_sort = Some [(''createdAt'', Minus1)], q_skip = Some (Num 2),
               q_limit = Num 2, q_populate = PopulateMany [], q_select = ProjRecord [], q_lean = True\<rparr>"
    by (simp add: PageNumberPaginator_query_def PageNumberPaginator_new_def default_args_def
        filter_or_empty_def populate_or_empty_def projection_or_empty_def lean_truthy_def getSkip_def js_sub_def)
  have f: "filter_or_empty (args ?P) = []"
    by (simp add: PageNumberPaginator_new_def default_args_def filter_or_empty_def)
  have h1: "page ?P = Num (of_int 2)" and h2: "limit ?P = Num (of_int 2)"
    by (simp_all add: PageNumberPaginator_new_def)
  have h5: "exec (model ?P) (PageNumberPaginator_query ?P) = Inr [person ''65f000000000000000000003'' ''cy'']"
    unfolding q
    by (simp add: PageNumberPaginator_new_def collection_def run_query_def people_all sort_createdAt_people
        is_integer_def)
      (simp add: people_def)
  have h6: "countDocuments (model ?P) (filter_or_empty (args ?P)) = Inr (Num (of_nat 3))"
    unfolding f
    by (simp add: PageNumberPaginator_new_def collection_def count_docs_def people_all)
      (simp add: people_def)
  have c: "\<lceil>(3::rat) / 2\<rceil> = 2" by (rule ceiling_unique) simp_all
  from page_number_meta [OF h1 h2 _ _ h5 h6] show ?thesis
    unfolding q f by (simp add: c safe_integer_def)
qed

subsection \<open>Offset strategy\<close>

lemma trunc_of_int: "trunc (of_int k) = k"
  by (simp add: trunc_def)

lemma js_mod_zero_iff:
  assumes "l \<noteq> 0"
  shows "(off - l * of_int (trunc (off / l)) = 0) = (\<exists>k::int. off = of_int k * l)"
proof
  assume "off - l * of_int (trunc (off / l)) = 0"
  then have "off = of_int (trunc (off / l)) * l" by (simp add: mult.commute)
  then show "\<exists>k::int. off = of_int k * l" ..
next
  assume "\<exists>k::int. off = of_int k * l"
  then obtain k :: int where k: "off = of_int k * l" ..
  with assms have "off / l = of_int k" by simp
  then have "trunc (off / l) = k" by (simp add: trunc_of_int)
  with k show "off - l * of_int (trunc (off / l)) = 0" by (simp add: mult.commute)
qed

lemma offset_new_fails_iff:
  "(OffsetPaginator_new m (Num off) (Num l) a = Inl (MongoosePaginatorError ''Offset must be a multiple of limit)''))
    = (l = 0 \<or> (\<nexists>k::int. off = of_int k * l))"
proof (cases "l = 0")
  case True
  then show ?thesis by (simp add: OffsetPaginator_new_def js_strict_neq_def)
next
  case False
  then show ?thesis
    using js_mod_zero_iff [OF False, of off]
    by (simp add: OffsetPaginator_new_def js_strict_neq_def)
qed

lemma offset_new_succeeds:
  assumes "l \<noteq> 0" and "\<exists>k::int. off = of_int k * l"
  shows "OffsetPaginator_new m (Num off) (Num l) a =
    Inr \<lparr>model = m, args = (case a of None \<Rightarrow> offset_default_args | Some x \<Rightarrow> x),
         offset = Num off, olimit = Num l\<rparr>"
  using assms js_mod_zero_iff [OF assms(1), of off]
  by (simp add: OffsetPaginator_new_def js_strict_neq_def)

lemma offset_currentPage:
  assumes "olimit this = Num l" "offset this = Num off" "l \<noteq> 0"
    and "snd (OffsetPaginator_paginate this) = Inr r"
  shows "currentPage (meta r) = Some (Num (of_int (\<lfloor>off / l\<rfloor> + 1)))"
  using assms
  by (auto simp: OffsetPaginator_paginate_def Let_def page_meta_def Promise_all_def
      split: sum.splits prod.splits)

text \<open>
  C7. For finite numbers \<open>off\<close> and \<open>l\<close>, the constructor throws the package's error
  exactly when \<open>l\<close> is 0 or \<open>off\<close> is not an integer multiple of \<open>l\<close>. Otherwise it
  builds the paginator, and when \<open>floor (off / l)\<close> is a safe integer every result of
  its \<^verbatim>\<open>paginate\<close> has \<open>currentPage = floor (off / l) + 1\<close>; with offset 6 and limit
  3 that is 3.
\<close>

theorem offset_constructor_validation:
  "(OffsetPaginator_new m (Num off) (Num l) a
      = Inl (MongoosePaginatorError ''Offset must be a multiple of limit)''))
     = (l = 0 \<or> (\<nexists>k::int. off = of_int k * l))
   \<and> (l \<noteq> 0 \<and> (\<exists>k::int. off = of_int k * l) \<longrightarrow>
        (\<exists>this. OffsetPaginator_new m (Num off) (Num l) a = Inr this
           \<and> offset this = Num off \<and> olimit this = Num l
           \<and> (safe_integer \<lfloor>off / l\<rfloor> \<longrightarrow>
                (\<forall>r. snd (OffsetPaginator_paginate this) = Inr r \<longrightarrow>
                   currentPage (meta r) = Some (Num (of_int (\<lfloor>off / l\<rfloor> + 1)))))))"
proof (intro conjI impI)
  show "(OffsetPaginator_new m (Num off) (Num l) a
      = Inl (MongoosePaginatorError ''Offset must be a multiple of limit)''))
     = (l = 0 \<or> (\<nexists>k::int. off = of_int k * l))"
    by (rule offset_new_fails_iff)
next
  assume h: "l \<noteq> 0 \<and> (\<exists>k::int. off = of_int k * l)"
  let ?P = "\<lparr>model = m, args = (case a of None \<Rightarrow> offset_default_args | Some x \<Rightarrow> x),
         offset = Num off, olimit = Num l\<rparr>"
  from h have new: "OffsetPaginator_new m (Num off) (Num l) a = Inr ?P"
    by (simp add: offset_new_succeeds)
  have "\<forall>r. snd (OffsetPaginator_paginate ?P) = Inr r \<longrightarrow>
      currentPage (meta r) = Some (Num (of_int (\<lfloor>off / l\<rfloor> + 1)))"
  proof (intro allI impI)
    fix r assume "snd (OffsetPaginator_paginate ?P) = Inr r"
    moreover have "olimit ?P = Num l" and "offset ?P = Num off" by simp_all
    moreover from h have "l \<noteq> 0" by simp
    ultimately show "currentPage (meta r) = Some (Num (of_int (\<lfloor>off / l\<rfloor> + 1)))"
      by (rule offset_currentPage [rotated 3])
  qed
  with new show "\<exists>this. OffsetPaginator_new m (Num off) (Num l) a = Inr this
           \<and> offset this = Num off \<and> olimit this = Num l
           \<and> (safe_integer \<lfloor>off / l\<rfloor> \<longrightarrow>
                (\<forall>r. snd (OffsetPaginator_paginate this) = Inr r \<longrightarrow>
                   currentPage (meta r) = Some (Num (of_int (\<lfloor>off / l\<rfloor> + 1)))))"
    by (intro exI [of _ ?P]) simp
qed

lemma people_skip_6: "run_query people \<lparr>q_filter = [], q_sort = Some [], q_skip = Some (Num 6),
     q_limit = Num 3, q_populate = PopulateMany [], q_select = ProjRecord [], q_lean = True\<rparr> = Inr []"
  by (simp add: run_query_def people_all is_integer_def) (simp add: people_def)

lemma count_people: "count_docs people [] = Inr (Num 3)"
  by (simp add: count_docs_def people_all) (simp add: people_def)

theorem offset_constructor_validation_witness:
  "OffsetPaginator_new (collection people) (Num 5) (Num 3) None
      = Inl (MongoosePaginatorError ''Offset must be a multiple of limit)'')
   \<and> (\<exists>this r. OffsetPaginator_new (collection people) (Num 6) (Num 3) None = Inr this
         \<and> snd (OffsetPaginator_paginate this) = Inr r
         \<and> currentPage (meta r) = Some (Num 3))"
proof -
  have no5: "\<nexists>k::int. (5::rat) = of_int k * 3"
  proof
    assume "\<exists>k::int. (5::rat) = of_int k * 3"
    then obtain k :: int where "(5::rat) = of_int k * 3" ..
    then have "(of_int 5 :: rat) = of_int (k * 3)" by simp
    then have "5 = k * 3" by (simp only: of_int_eq_iff)
    then show False by presburger
  qed
  have yes6: "\<exists>k::int. (6::rat) = of_int k * 3"
    by (rule exI [of _ 2]) simp
  have fl: "\<lfloor>(6::rat) / 3\<rfloor> = 2" by simp
  from offset_constructor_validation [of "collection people" 5 3 None] no5
  have a: "OffsetPaginator_new (collection people) (Num 5) (Num 3) None
      = Inl (MongoosePaginatorError ''Offset must be a multiple of limit)'')"
    by simp
  have sf: "safe_integer \<lfloor>(6::rat) / 3\<rfloor>" by (simp add: safe_integer_def)
  from offset_constructor_validation [of "collection people" 6 3 None] yes6 sf
  obtain this where new: "OffsetPaginator_new (collection people) (Num 6) (Num 3) None = Inr this"
    and off: "offset this = Num 6" and lim: "olimit this = Num 3"
    and cur: "\<forall>r. snd (OffsetPaginator_paginate this) = Inr r \<longrightarrow>
                 currentPage (meta r) = Some (Num (of_int (\<lfloor>(6::rat) / 3\<rfloor> + 1)))"
    by auto
  from new yes6 have eq: "this = \<lparr>model = collection people, args = offset_default_args,
         offset = Num 6, olimit = Num 3\<rparr>"
    by (simp add: offset_new_succeeds)
  have "\<exists>r. snd (OffsetPaginator_paginate this) = Inr r"
    unfolding eq
    by (simp add: OffsetPaginator_paginate_def OffsetPaginator_query_def Let_def Promise_all_def
        offset_default_args_def filter_or_empty_def populate_or_empty_def projection_or_empty_def
        lean_truthy_def collection_def people_skip_6 count_people)
  then obtain r where r: "snd (OffsetPaginator_paginate this) = Inr r" ..
  with cur have "currentPage (meta r) = Some (Num 3)" by (simp add: fl)
  with new r a show ?thesis by blast
qed

text \<open>
  C9. \<^verbatim>\<open>setOffset\<close> and \<^verbatim>\<open>setLimit\<close> store their argument without the check of the
  constructor. On a paginator that was constructed successfully they can store an
  offset and a limit that the constructor rejects (an offset that is no multiple of
  the limit, or the limit 0); \<^verbatim>\<open>paginate\<close> then still sends both queries, with that
  offset as \<^verbatim>\<open>skip\<close>, and computes \<open>currentPage = floor (off / l) + 1\<close> from them.
\<close>

theorem offset_setters_do_not_validate:
  assumes "OffsetPaginator_new m off0 l0 a = Inr this"
    and "OffsetPaginator_new m off l a = Inl e"
    and "exec m (OffsetPaginator_query (OffsetPaginator_setLimit l (OffsetPaginator_setOffset off this)))
           = Inr items"
    and "countDocuments m (filter_or_empty (args this)) = Inr tot"
  shows "offset (OffsetPaginator_setLimit l (OffsetPaginator_setOffset off this)) = off
    \<and> olimit (OffsetPaginator_setLimit l (OffsetPaginator_setOffset off this)) = l
    \<and> q_skip (OffsetPaginator_query (OffsetPaginator_setLimit l (OffsetPaginator_setOffset off this)))
         = Some off
    \<and> OffsetPaginator_paginate (OffsetPaginator_setLimit l (OffsetPaginator_setOffset off this))
        = ([Find (OffsetPaginator_query (OffsetPaginator_setLimit l (OffsetPaginator_setOffset off this))),
            CountDocuments (filter_or_empty (args this))],
           Inr \<lparr>data = items,
                meta = page_meta tot (Math_ceil (js_div tot l))
                         (js_add (Math_floor (js_div off l)) (Num 1)) l\<rparr>)"
proof -
  let ?P = "OffsetPaginator_setLimit l (OffsetPaginator_setOffset off this)"
  from assms(1) have m: "model this = m"
    by (auto simp: OffsetPaginator_new_def split: if_splits)
  have fields: "offset ?P = off" "olimit ?P = l" "args ?P = args this" "model ?P = m"
    by (simp_all add: OffsetPaginator_setLimit_def OffsetPaginator_setOffset_def m)
  have skip: "q_skip (OffsetPaginator_query ?P) = Some off"
    by (simp add: OffsetPaginator_query_def fields)
  have "OffsetPaginator_paginate ?P
        = ([Find (OffsetPaginator_query ?P), CountDocuments (filter_or_empty (args this))],
           Inr \<lparr>data = items,
                meta = page_meta tot (Math_ceil (js_div tot l))
                         (js_add (Math_floor (js_div off l)) (Num 1)) l\<rparr>)"
    by (simp add: OffsetPaginator_paginate_def Let_def Promise_all_def fields assms(3,4))
  with fields skip show ?thesis by simp
qed

lemma people_skip_5: "run_query people \<lparr>q_filter = [], q_sort = Some [], q_skip = Some (Num 5),
     q_limit = Num 3, q_populate = PopulateMany [], q_select = ProjRecord [], q_lean = True\<rparr> = Inr []"
  by (simp add: run_query_def people_all is_integer_def) (simp add: people_def)

theorem offset_setters_do_not_validate_witness:
  "OffsetPaginator_new (collection people) (Num 6) (Num 3) None
     = Inr \<lparr>model = collection people, args = offset_default_args, offset = Num 6, olimit = Num 3\<rparr>
   \<and> OffsetPaginator_new (collection people) (Num 5) (Num 3) None
     = Inl (MongoosePaginatorError ''Offset must be a multiple of limit)'')
   \<and> OffsetPaginator_paginate
       (OffsetPaginator_setLimit (Num 3) (OffsetPaginator_setOffset (Num 5)
          \<lparr>model = collection people, args = offset_default_args, offset = Num 6, olimit = Num 3\<rparr>))
     = ([Find \<lparr>q_filter = [], q_sort = Some [], q_skip = Some (Num 5), q_limit = Num 3,
               q_populate = PopulateMany [], q_select = ProjRecord [], q_lean = True\<rparr>,
         CountDocuments []],
        Inr \<lparr>data = [],
             meta = \<lparr>total = Some (Num 3), lastPage = Some (Num 1), currentPage = Some (Num 2),
                     perPage = Some (Num 3), prev = Some (Val (Num 1)), next = Some Null,
                     nextCursor = None\<rparr>\<rparr>)"
proof -
  let ?P = "\<lparr>model = collection people, args = offset_default_args, offset = Num 6, olimit = Num 3\<rparr>"
  let ?Q = "OffsetPaginator_setLimit (Num 3) (OffsetPaginator_setOffset (Num 5) ?P)"
  have t5: "trunc (5 / 3) = 1" unfolding trunc_def by simp (rule floor_unique, simp_all)
  have h1: "OffsetPaginator_new (collection people) (Num 6) (Num 3) None = Inr ?P"
    by (simp add: OffsetPaginator_new_def js_strict_neq_def trunc_def)
  have h2: "OffsetPaginator_new (collection people) (Num 5) (Num 3) None
     = Inl (MongoosePaginatorError ''Offset must be a multiple of limit)'')"
    by (simp add: OffsetPaginator_new_def js_strict_neq_def t5)
  have q: "OffsetPaginator_query ?Q = \<lparr>q_filter = [], q_sort = Some [], q_skip = Some (Num 5), q_limit = Num 3,
               q_populate = PopulateMany [], q_select = ProjRecord [], q_lean = True\<rparr>"
    by (simp add: OffsetPaginator_query_def OffsetPaginator_setLimit_def OffsetPaginator_setOffset_def
        offset_default_args_def filter_or_empty_def populate_or_empty_def projection_or_empty_def
        lean_truthy_def)
  have f: "filter_or_empty (args ?P) = []"
    by (simp add: offset_default_args_def filter_or_empty_def)
  have h3: "exec (collection people) (OffsetPaginator_query ?Q) = Inr []"
    unfolding q by (simp add: collection_def people_skip_5)
  have h4: "countDocuments (collection people) (filter_or_empty (args ?P)) = Inr (Num 3)"
    unfolding f by (simp add: collection_def count_people)
  have fl: "\<lfloor>(5::rat) / 3\<rfloor> = 1" by (rule floor_unique) simp_all
  from offset_setters_do_not_validate [OF h1 h2 h3 h4] h1 h2 show ?thesis
    unfolding q f by (simp add: page_meta_def js_gt_def js_sub_def fl)
qed

subsection \<open>Limits that are not positive\<close>

text \<open>
  C6, as the claim states it, fails: with the limit 0 the page-number strategy sends
  both queries and returns a result, whose \<open>lastPage\<close> is Infinity.
\<close>

theorem nonpositive_limit_counterexample:
  "PageNumberPaginator_paginate
     (PageNumberPaginator_new (collection people) (Some (Num 1)) (Some (Num 0)) None)
    = ([Find \<lparr>q_filter = [], q_sort = Some [(''createdAt'', Minus1)], q_skip = Some (Num 0),
               q_limit = Num 0, q_populate = PopulateMany [], q_select = ProjRecord [], q_lean = True\<rparr>,
        CountDocuments []],
       Inr \<lparr>data = people,
            meta = \<lparr>total = Some (Num 3), lastPage = Some PosInf, currentPage = Some (Num 1),
                    perPage = Some (Num 0), prev = Some Null, next = Some (Val (Num 2)),
                    nextCursor = None\<rparr>\<rparr>)"
  by code_simp

text \<open>
  C6, amended. Neither strategy checks the limit. With a limit \<open>l \<le> 0\<close> the
  page-number strategy sends the find, with \<open>l\<close> as its limit, and the count, and
  returns a result whenever the collection answers both; the cursor strategy, once
  the cursor is accepted, sends the find with \<open>l\<close> as its limit and returns a result
  whenever the collection answers and the next cursor can be written.
\<close>

theorem nonpositive_limit_passed_on:
  assumes "l \<le> 0"
  shows "(limit pn = Num l \<longrightarrow>
       fst (PageNumberPaginator_paginate pn)
         = [Find (PageNumberPaginator_query pn), CountDocuments (filter_or_empty (args pn))]
     \<and> q_limit (PageNumberPaginator_query pn) = Num l
     \<and> (\<forall>items tot.
           exec (model pn) (PageNumberPaginator_query pn) = Inr items
           \<and> countDocuments (model pn) (filter_or_empty (args pn)) = Inr tot \<longrightarrow>
           snd (PageNumberPaginator_paginate pn)
             = Inr \<lparr>data = items,
                    meta = page_meta tot (Math_ceil (js_div tot (Num l))) (page pn) (Num l)\<rparr>))
   \<and> (climit cp = Num l \<longrightarrow>
       (\<forall>flt. cursor_filter cp = Inr flt \<longrightarrow>
          fst (CursorPaginator_paginate cp) = [Find (CursorPaginator_query cp flt)]
        \<and> q_limit (CursorPaginator_query cp flt) = Num l
        \<and> (\<forall>items nc.
              exec (model cp) (CursorPaginator_query cp flt) = Inr items
              \<and> next_cursor cp items = Inr nc \<longrightarrow>
              snd (CursorPaginator_paginate cp) = Inr \<lparr>data = items, meta = cursor_meta nc\<rparr>)))"
  by (auto simp: PageNumberPaginator_paginate_def PageNumberPaginator_query_def Let_def
      Promise_all_def CursorPaginator_paginate_def CursorPaginator_query_def)

theorem nonpositive_limit_passed_on_witness:
  "PageNumberPaginator_paginate
     (PageNumberPaginator_new (collection people) (Some (Num 1)) (Some (Num (- 2))) None)
    = ([Find \<lparr>q_filter = [], q_sort = Some [(''createdAt'', Minus1)], q_skip = Some (Num 0),
               q_limit = Num (- 2), q_populate = PopulateMany [], q_select = ProjRecord [], q_lean = True\<rparr>,
        CountDocuments []],
       Inr \<lparr>data = [person ''65f000000000000000000001'' ''ann'', person ''65f000000000000000000002'' ''bob''],
            meta = page_meta (Num 3) (Num (- 1)) (Num 1) (Num (- 2))\<rparr>)
   \<and> CursorPaginator_paginate (CursorPaginator_new (collection people) Null (Num (- 2)) None)
    = ([Find \<lparr>q_filter = [], q_sort = Some [(''_id'', Plus1)], q_skip = None,
               q_limit = Num (- 2), q_populate = PopulateMany [], q_select = ProjRecord [], q_lean = True\<rparr>],
       Inr \<lparr>data = [person ''65f000000000000000000001'' ''ann'', person ''65f000000000000000000002'' ''bob''],
            meta = cursor_meta (Val ''65f000000000000000000002'')\<rparr>)"
proof -
  let ?pn = "PageNumberPaginator_new (collection people) (Some (Num 1)) (Some (Num (- 2))) None"
  let ?cp = "CursorPaginator_new (collection people) Null (Num (- 2)) None"
  let ?q = "\<lparr>q_filter = [], q_sort = Some [(''createdAt'', Minus1)], q_skip = Some (Num 0),
               q_limit = Num (- 2), q_populate = PopulateMany [], q_select = ProjRecord [], q_lean = True\<rparr>"
  let ?cq = "\<lparr>q_filter = [], q_sort = Some [(''_id'', Plus1)], q_skip = None,
               q_limit = Num (- 2), q_populate = PopulateMany [], q_select = ProjRecord [], q_lean = True\<rparr>"
  let ?two = "[person ''65f000000000000000000001'' ''ann'', person ''65f000000000000000000002'' ''bob'']"
  have l: "(- 2 :: rat) \<le> 0" by simp
  have pl: "limit ?pn = Num (- 2)" and pp: "page ?pn = Num 1" by (simp_all add: PageNumberPaginator_new_def)
  have pq: "PageNumberPaginator_query ?pn = ?q" by code_simp
  have pf: "filter_or_empty (args ?pn) = []" by code_simp
  have pe: "exec (model ?pn) ?q = Inr ?two" by code_simp
  have pc: "countDocuments (model ?pn) [] = Inr (Num 3)" by code_simp
  have cl: "climit ?cp = Num (- 2)" by (simp add: CursorPaginator_new_def)
  have cf: "cursor_filter ?cp = Inr []" by code_simp
  have cq: "CursorPaginator_query ?cp [] = ?cq" by code_simp
  have ce: "exec (model ?cp) ?cq = Inr ?two" by code_simp
  have cn: "next_cursor ?cp ?two = Inr (Val ''65f000000000000000000002'')" by code_simp
  have lp: "Math_ceil (js_div (Num 3) (Num (- 2))) = Num (- 1)" by code_simp
  note main = nonpositive_limit_passed_on [OF l, of ?pn ?cp]
  from main pl have p1: "fst (PageNumberPaginator_paginate ?pn) = [Find ?q, CountDocuments []]"
    and pa: "\<forall>items tot. exec (model ?pn) ?q = Inr items \<and> countDocuments (model ?pn) [] = Inr tot \<longrightarrow>
           snd (PageNumberPaginator_paginate ?pn)
             = Inr \<lparr>data = items,
                    meta = page_meta tot (Math_ceil (js_div tot (Num (- 2)))) (page ?pn) (Num (- 2))\<rparr>"
    unfolding pq pf by blast+
  from pa [rule_format, of ?two "Num 3"] pe pc
  have p2: "snd (PageNumberPaginator_paginate ?pn)
      = Inr \<lparr>data = ?two, meta = page_meta (Num 3) (Num (- 1)) (Num 1) (Num (- 2))\<rparr>"
    by (simp only: lp pp simp_thms)
  from main cl have ca: "\<forall>flt. cursor_filter ?cp = Inr flt \<longrightarrow>
          fst (CursorPaginator_paginate ?cp) = [Find (CursorPaginator_query ?cp flt)]
        \<and> q_limit (CursorPaginator_query ?cp flt) = Num (- 2)
        \<and> (\<forall>items nc.
              exec (model ?cp) (CursorPaginator_query ?cp flt) = Inr items
              \<and> next_cursor ?cp items = Inr nc \<longrightarrow>
              snd (CursorPaginator_paginate ?cp) = Inr \<lparr>data = items, meta = cursor_meta nc\<rparr>)"
    by blast
  from ca [rule_format, OF cf] have c1: "fst (CursorPaginator_paginate ?cp) = [Find ?cq]"
    and cb: "\<forall>items nc.
              exec (model ?cp) ?cq = Inr items \<and> next_cursor ?cp items = Inr nc \<longrightarrow>
              snd (CursorPaginator_paginate ?cp) = Inr \<lparr>data = items, meta = cursor_meta nc\<rparr>"
    unfolding cq by blast+
  from cb [rule_format, of ?two "Val ''65f000000000000000000002''"] ce cn
  have c2: "snd (CursorPaginator_paginate ?cp)
      = Inr \<lparr>data = ?two, meta = cursor_meta (Val ''65f000000000000000000002'')\<rparr>"
    by (simp only: simp_thms)
  from p1 p2 c1 c2 show ?thesis by (simp add: prod_eq_iff)
qed

subsection \<open>A cursor that is no identifier\<close>

text \<open>
  C5, as the claim states it, fails: with the default sort on \<^verbatim>\<open>_id\<close>, the cursor
  \<^verbatim>\<open>"not-an-id"\<close> makes \<^verbatim>\<open>paginate\<close> fail before any query, but with the BSONError of
  the ObjectId constructor, not with the package's error.
\<close>

theorem malformed_cursor_counterexample:
  "CursorPaginator_paginate (CursorPaginator_new (collection people) (Val ''not-an-id'') (Num 10) None)
    = ([], Inl (BSONError ''input must be a 24 character hex string, 12 byte Uint8Array, or an integer''))"
  by code_simp

text \<open>
  C5, amended. When the sort field is \<^verbatim>\<open>_id\<close> and the cursor is a non-empty string
  that is not 24 hexadecimal digits, \<^verbatim>\<open>paginate\<close> sends no query and fails with the
  BSONError that the ObjectId constructor throws. The empty string is not rejected:
  it is treated as no cursor.
\<close>

theorem malformed_cursor_bson_error:
  assumes "sortField this = Some ''_id''" and "cursor this = Val c"
    and "\<not> (length c = 24 \<and> list_all is_hex_digit c)"
  shows "(c \<noteq> [] \<longrightarrow> CursorPaginator_paginate this
            = ([], Inl (BSONError ''input must be a 24 character hex string, 12 byte Uint8Array, or an integer'')))
       \<and> (c = [] \<longrightarrow> CursorPaginator_paginate this = CursorPaginator_paginate (this\<lparr>cursor := Null\<rparr>))"
proof (intro conjI impI)
  assume "c \<noteq> []"
  with assms have "cursor_filter this
      = Inl (BSONError ''input must be a 24 character hex string, 12 byte Uint8Array, or an integer'')"
    by (simp add: cursor_filter_def ObjectId_new_def Let_def)
  then show "CursorPaginator_paginate this
            = ([], Inl (BSONError ''input must be a 24 character hex string, 12 byte Uint8Array, or an integer''))"
    by (simp add: CursorPaginator_paginate_def)
next
  assume "c = []"
  have sf: "sortField (this\<lparr>cursor := Null\<rparr>) = sortField this"
    and so: "sortOrder (this\<lparr>cursor := Null\<rparr>) = sortOrder this"
    by (simp_all add: sortField_def sortOrder_def sortConfig_def)
  from \<open>c = []\<close> assms(2) have e1: "cursor_filter (this\<lparr>cursor := Null\<rparr>) = cursor_filter this"
    by (simp add: cursor_filter_def Let_def)
  have e2: "CursorPaginator_query (this\<lparr>cursor := Null\<rparr>) = CursorPaginator_query this"
    by (simp add: CursorPaginator_query_def sortConfig_def fun_eq_iff)
  have e3: "next_cursor (this\<lparr>cursor := Null\<rparr>) = next_cursor this"
    unfolding next_cursor_def sf by simp
  have e4: "model (this\<lparr>cursor := Null\<rparr>) = model this" by simp
  show "CursorPaginator_paginate this = CursorPaginator_paginate (this\<lparr>cursor := Null\<rparr>)"
    unfolding CursorPaginator_paginate_def e1 e2 e3 e4 ..
qed

theorem malformed_cursor_bson_error_witness:
  "CursorPaginator_paginate
     (CursorPaginator_new (collection people) (Val ''65f00000000000000000000g'') (Num 10) (Some by_id_desc))
    = ([], Inl (BSONError ''input must be a 24 character hex string, 12 byte Uint8Array, or an integer''))
   \<and> CursorPaginator_paginate
     (CursorPaginator_new (collection people) (Val []) (Num 10) (Some by_id_desc))
    = CursorPaginator_paginate
     (CursorPaginator_new (collection people) Null (Num 10) (Some by_id_desc))"
proof -
  let ?bad = "CursorPaginator_new (collection people) (Val ''65f00000000000000000000g'') (Num 10) (Some by_id_desc)"
  let ?emp = "CursorPaginator_new (collection people) (Val []) (Num 10) (Some by_id_desc)"
  have s1: "sortField ?bad = Some ''_id''" and s2: "sortField ?emp = Some ''_id''" by code_simp+
  have c1: "cursor ?bad = Val ''65f00000000000000000000g''" and c2: "cursor ?emp = Val []"
    by (simp_all add: CursorPaginator_new_def)
  have n1: "\<not> (length ''65f00000000000000000000g'' = 24 \<and> list_all is_hex_digit ''65f00000000000000000000g'')"
    by code_simp
  have n2: "\<not> (length ([] :: string) = 24 \<and> list_all is_hex_digit [])" by simp
  have e: "?emp\<lparr>cursor := Null\<rparr> = CursorPaginator_new (collection people) Null (Num 10) (Some by_id_desc)"
    by (simp add: CursorPaginator_new_def)
  from malformed_cursor_bson_error [OF s1 c1 n1] malformed_cursor_bson_error [OF s2 c2 n2]
  show ?thesis unfolding e by simp
qed

subsection \<open>The range clause of the cursor strategy\<close>

lemma cursor_filter_no_cursor:
  "cursor this = Null \<or> cursor this = Val [] \<Longrightarrow> cursor_filter this = Inr (filter_or_empty (args this))"
  by (auto simp: cursor_filter_def Let_def)

lemma cursor_filter_other_field:
  assumes "cursor this = Val c" and "c \<noteq> []" and "sortField this \<noteq> Some ''_id''"
  shows "cursor_filter this =
    Inr (AList.update (prop_key (sortField this))
          (if sortOrder this = Some Plus1 then Gt (VScalar (SString c)) else Lt (VScalar (SString c)))
          (filter_or_empty (args this)))"
  using assms by (simp add: cursor_filter_def Let_def)

lemma cursor_filter_id_field:
  assumes "cursor this = Val c" and "c \<noteq> []" and "sortField this = Some ''_id''"
    and "ObjectId_new c = Inr oid"
  shows "cursor_filter this =
    Inr (AList.update ''_id''
          (if sortOrder this = Some Plus1 then Gt (VScalar (SObjectId oid)) else Lt (VScalar (SObjectId oid)))
          (filter_or_empty (args this)))"
  using assms by (simp add: cursor_filter_def Let_def)

lemma default_sort_is_id_ascending:
  "sort (args this) = None \<Longrightarrow> sortConfig this = [(''_id'', Plus1)]
     \<and> sortField this = Some ''_id'' \<and> sortOrder this = Some Plus1"
  by (simp add: sortConfig_def sortField_def sortOrder_def)

text \<open>
  C2. The claim fails where the sort direction is written \<^verbatim>\<open>'asc'\<close>: the people sorted
  by name, ascending, one row a page. The first page ends with ann; called with the
  cursor \<^verbatim>\<open>"ann"\<close>, \<^verbatim>\<open>paginate\<close> sends the ascending sort together with the clause
  \<^verbatim>\<open>name: { $lt: "ann" }\<close>, and gets no row.
\<close>

theorem asc_direction_gets_lt_clause:
  "CursorPaginator_paginate (CursorPaginator_new (collection people) (Val ''ann'') (Num 1) (Some (by_name Asc)))
    = ([Find \<lparr>q_filter = [(''name'', Lt (VScalar (SString ''ann'')))], q_sort = Some [(''name'', Asc)],
               q_skip = None, q_limit = Num 1, q_populate = PopulateMany [], q_select = ProjRecord [],
               q_lean = True\<rparr>],
       Inr \<lparr>data = [], meta = cursor_meta Null\<rparr>)"
  by code_simp

subsection \<open>Walking a collection\<close>

lemma walk_people_by_id:
  "traverse 3 (CursorPaginator_new (collection people) Null (Num 2) None) = Done people"
  by code_simp

lemma walk_people_by_name_desc:
  "traverse 4 (CursorPaginator_new (collection people) Null (Num 1) (Some (by_name Minus1))) = Done (rev people)"
  by code_simp

lemma walk_people_asc_stops_early:
  "traverse 2 (CursorPaginator_new (collection people) Null (Num 1) (Some (by_name Asc)))
     = Done [person ''65f000000000000000000001'' ''ann'']"
  by code_simp

lemma unnamed_first_page:
  "snd (CursorPaginator_paginate (CursorPaginator_new (collection unnamed) Null (Num 1) (Some (by_name Plus1))))
    = Inr \<lparr>data = [person ''65f000000000000000000004'' ''''], meta = cursor_meta (Val '''')\<rparr>"
  by code_simp

lemma unnamed_same_page:
  "snd (CursorPaginator_paginate (CursorPaginator_new (collection unnamed) (Val '''') (Num 1) (Some (by_name Plus1))))
    = Inr \<lparr>data = [person ''65f000000000000000000004'' ''''], meta = cursor_meta (Val '''')\<rparr>"
  by code_simp

lemma setCursor_new:
  "CursorPaginator_setCursor c (CursorPaginator_new m c0 l a) = CursorPaginator_new m (Val c) l a"
  by (simp add: CursorPaginator_setCursor_def CursorPaginator_new_def)

lemma unnamed_loop:
  "traverse n (CursorPaginator_new (collection unnamed) (Val '''') (Num 1) (Some (by_name Plus1))) = OutOfFuel"
  by (induction n) (simp_all add: unnamed_same_page cursor_meta_def setCursor_new)

text \<open>
  C1. The claim fails on a collection of two documents whose names, the empty string
  and \<^verbatim>\<open>"dee"\<close>, are distinct: sorted by name, ascending, one row a page. The first
  page is the document with the empty name and \<^verbatim>\<open>nextCursor\<close> is the empty string;
  that cursor is falsy, so the next call sends the first query again. However many
  calls are allowed, the walk does not reach a null \<^verbatim>\<open>nextCursor\<close>.
\<close>

theorem empty_string_cursor_never_ends:
  "traverse n (CursorPaginator_new (collection unnamed) Null (Num 1) (Some (by_name Plus1))) = OutOfFuel"
  by (cases n) (simp_all add: unnamed_first_page cursor_meta_def setCursor_new unnamed_loop)

subsection \<open>Dates written and read back\<close>











subsection \<open>The next cursor\<close>

lemma paginate_next_cursor:
  assumes "snd (CursorPaginator_paginate this) = Inr r"
  shows "\<exists>nc. next_cursor this (data r) = Inr nc \<and> nextCursor (meta r) = Some nc"
  using assms
  by (auto simp: CursorPaginator_paginate_def Let_def cursor_meta_def split: sum.splits)



subsection \<open>After the last page\<close>

text \<open>
  C4, as the claim states it, fails. Walking the people by \<^verbatim>\<open>_id\<close>, two rows a page,
  the call with the cursor of the last row returns no row and a null \<^verbatim>\<open>nextCursor\<close>:
  the sequence is exhausted. A call in the null-cursor state then returns the first
  two rows again, and a cursor.
\<close>

theorem null_cursor_restarts_counterexample:
  "snd (CursorPaginator_paginate
          (CursorPaginator_new (collection people) (Val ''65f000000000000000000003'') (Num 2) None))
     = Inr \<lparr>data = [], meta = cursor_meta Null\<rparr>
   \<and> snd (CursorPaginator_paginate (CursorPaginator_new (collection people) Null (Num 2) None))
     = Inr \<lparr>data = [person ''65f000000000000000000001'' ''ann'', person ''65f000000000000000000002'' ''bob''],
            meta = cursor_meta (Val ''65f000000000000000000002'')\<rparr>"
  by code_simp

text \<open>
  C4, amended. A call that returns a null \<^verbatim>\<open>nextCursor\<close> returned no row. In the
  null-cursor state \<^verbatim>\<open>paginate\<close> sends the find of the first call, the caller's filter
  without a range clause, and returns the rows the collection answers: no row and a
  null \<^verbatim>\<open>nextCursor\<close> only when the collection answers that query with no row,
  otherwise the first page again.
\<close>

theorem null_cursor_starts_again:
  "(\<forall>r. snd (CursorPaginator_paginate this) = Inr r \<and> nextCursor (meta r) = Some Null \<longrightarrow> data r = [])
   \<and> (cursor this = Null \<longrightarrow>
        fst (CursorPaginator_paginate this)
          = [Find (CursorPaginator_query this (filter_or_empty (args this)))]
      \<and> (\<forall>items r.
            exec (model this) (CursorPaginator_query this (filter_or_empty (args this))) = Inr items
            \<and> snd (CursorPaginator_paginate this) = Inr r \<longrightarrow>
            data r = items \<and> (nextCursor (meta r) = Some Null \<longleftrightarrow> items = [])))"
proof -
  have empty: "nextCursor (meta r) = Some Null \<longleftrightarrow> data r = []"
    if "snd (CursorPaginator_paginate this) = Inr r" for r
  proof -
    from paginate_next_cursor [OF that] obtain nc
      where "next_cursor this (data r) = Inr nc" and "nextCursor (meta r) = Some nc" by blast
    then show ?thesis
      by (auto simp: next_cursor_def Let_def split: if_splits fieldval.splits sum.splits)
  qed
  have first: "fst (CursorPaginator_paginate this)
          = [Find (CursorPaginator_query this (filter_or_empty (args this)))]"
    and rows: "\<forall>items r.
            exec (model this) (CursorPaginator_query this (filter_or_empty (args this))) = Inr items
            \<and> snd (CursorPaginator_paginate this) = Inr r \<longrightarrow> data r = items"
    if "cursor this = Null"
  proof -
    from that have cf: "cursor_filter this = Inr (filter_or_empty (args this))"
      by (simp add: cursor_filter_no_cursor)
    then show "fst (CursorPaginator_paginate this)
          = [Find (CursorPaginator_query this (filter_or_empty (args this)))]"
      by (simp add: CursorPaginator_paginate_def Let_def)
    from cf show "\<forall>items r.
            exec (model this) (CursorPaginator_query this (filter_or_empty (args this))) = Inr items
            \<and> snd (CursorPaginator_paginate this) = Inr r \<longrightarrow> data r = items"
      by (auto simp: CursorPaginator_paginate_def Let_def split: sum.splits)
  qed
  from empty first rows show ?thesis by metis
qed

theorem null_cursor_starts_again_witness:
  "data \<lparr>data = ([] :: Doc list), meta = cursor_meta Null\<rparr> = []
   \<and> fst (CursorPaginator_paginate (CursorPaginator_new (collection people) Null (Num 1) None))
     = [Find \<lparr>q_filter = [], q_sort = Some [(''_id'', Plus1)], q_skip = None, q_limit = Num 1,
              q_populate = PopulateMany [], q_select = ProjRecord [], q_lean = True\<rparr>]
   \<and> snd (CursorPaginator_paginate (CursorPaginator_new (collection people) Null (Num 1) None))
     = Inr \<lparr>data = [person ''65f000000000000000000001'' ''ann''],
            meta = cursor_meta (Val ''65f000000000000000000001'')\<rparr>
   \<and> nextCursor (cursor_meta (Val ''65f000000000000000000001'')) \<noteq> Some Null"
proof -
  let ?end = "CursorPaginator_new (collection people) (Val ''65f000000000000000000003'') (Num 1) None"
  let ?new = "CursorPaginator_new (collection people) Null (Num 1) None"
  let ?q = "\<lparr>q_filter = [], q_sort = Some [(''_id'', Plus1)], q_skip = None, q_limit = Num 1,
              q_populate = PopulateMany [], q_select = ProjRecord [], q_lean = True\<rparr>"
  let ?r = "\<lparr>data = [person ''65f000000000000000000001'' ''ann''],
            meta = cursor_meta (Val ''65f000000000000000000001'')\<rparr>"
  have e: "snd (CursorPaginator_paginate ?end) = Inr \<lparr>data = [], meta = cursor_meta Null\<rparr>
      \<and> nextCursor (meta \<lparr>data = ([] :: Doc list), meta = cursor_meta Null\<rparr>) = Some Null"
    by code_simp
  from null_cursor_starts_again [of ?end] e
  have a: "data \<lparr>data = ([] :: Doc list), meta = cursor_meta Null\<rparr> = []" by blast
  have c: "cursor ?new = Null" by (simp add: CursorPaginator_new_def)
  have q: "CursorPaginator_query ?new (filter_or_empty (args ?new)) = ?q" by code_simp
  have x: "exec (model ?new) ?q = Inr [person ''65f000000000000000000001'' ''ann'']" by code_simp
  have s: "snd (CursorPaginator_paginate ?new) = Inr ?r" by code_simp
  from null_cursor_starts_again [of ?new] c
  have f: "fst (CursorPaginator_paginate ?new) = [Find ?q]"
    and g: "\<forall>items r. exec (model ?new) ?q = Inr items \<and> snd (CursorPaginator_paginate ?new) = Inr r \<longrightarrow>
            data r = items \<and> (nextCursor (meta r) = Some Null \<longleftrightarrow> items = [])"
    unfolding q by blast+
  from g [rule_format, of "[person ''65f000000000000000000001'' ''ann'']" ?r] x s
  have n: "nextCursor (cursor_meta (Val ''65f000000000000000000001'')) \<noteq> Some Null" by simp
  from a f s n show ?thesis by (intro conjI)
qed

section \<open>Where the walk succeeds\<close>

subsection \<open>The order of strings\<close>

lemma str_lt_irrefl: "\<not> str_lt a a"
  by (induction a) auto

lemma str_lt_trans: "str_lt a b \<Longrightarrow> str_lt b c \<Longrightarrow> str_lt a c"
proof (induction a b arbitrary: c rule: str_lt.induct)
  case (2 y ys)
  then show ?case by (cases c) auto
next
  case (4 x xs y ys)
  then show ?case by (cases c) auto
qed auto

lemma str_lt_total: "a \<noteq> b \<Longrightarrow> str_lt a b \<or> str_lt b a"
proof (induction a b rule: str_lt.induct)
  case (4 x xs y ys)
  show ?case
  proof (cases "x = y")
    case True
    with 4 show ?thesis by auto
  next
    case False
    then have "(of_char x :: nat) \<noteq> of_char y" by simp
    then have "(of_char x :: nat) < of_char y \<or> (of_char y :: nat) < of_char x" by linarith
    then show ?thesis by (simp only: str_lt.simps) blast
  qed
qed auto

subsection \<open>Lists sorted by a strict linear order\<close>

lemma strict_linear_on_subset: "strict_linear_on A R \<Longrightarrow> B \<subseteq> A \<Longrightarrow> strict_linear_on B R"
  unfolding strict_linear_on_def by (meson subsetD)

lemma sorted_wrt_unique:
  assumes "strict_linear_on A R"
  shows "sorted_wrt R xs \<Longrightarrow> sorted_wrt R ys \<Longrightarrow> set xs = set ys \<Longrightarrow> set xs \<subseteq> A \<Longrightarrow> xs = ys"
proof (induction xs arbitrary: ys)
  case Nil
  then show ?case by simp
next
  case (Cons x xs)
  then obtain y ys' where ys: "ys = y # ys'" by (cases ys) auto
  from Cons.prems ys have xA: "x \<in> A" and yA: "y \<in> A" by auto
  have xy: "x = y"
  proof (rule ccontr)
    assume ne: "x \<noteq> y"
    with Cons.prems ys have "x \<in> set ys'" and "y \<in> set xs" by auto
    with Cons.prems ys have "R y x" and "R x y" by auto
    with assms xA yA show False unfolding strict_linear_on_def by blast
  qed
  from Cons.prems assms xA have "x \<notin> set xs" unfolding strict_linear_on_def by auto
  moreover from Cons.prems ys assms yA have "y \<notin> set ys'" unfolding strict_linear_on_def by auto
  ultimately have "set xs = set ys'" using Cons.prems ys xy by auto
  with Cons.IH [of ys'] Cons.prems ys have "xs = ys'" by auto
  with xy ys show ?case by simp
qed

lemma filter_sorted_is_drop:
  assumes lin: "strict_linear_on (set S) R" and srt: "sorted_wrt R S" and i: "i < length S"
  shows "List.filter (R (S ! i)) S = drop (Suc i) S"
proof -
  have split: "S = take i S @ S ! i # drop (Suc i) S"
    using i by (rule id_take_nth_drop)
  have mem: "S ! i \<in> set S" using i by simp
  have before: "\<not> R (S ! i) y" if "y \<in> set (take i S)" for y
  proof -
    from that obtain j where "j < i" and "y = S ! j"
      using i by (auto simp: in_set_conv_nth)
    with srt i have "R y (S ! i)" by (simp add: sorted_wrt_iff_nth_less)
    moreover from that have "y \<in> set S" by (rule in_set_takeD)
    ultimately show ?thesis using lin mem unfolding strict_linear_on_def by blast
  qed
  have after: "R (S ! i) y" if "y \<in> set (drop (Suc i) S)" for y
  proof -
    from that obtain j where "j < length S - Suc i" and "y = S ! (Suc i + j)"
      by (auto simp: in_set_conv_nth)
    with srt show ?thesis by (simp add: sorted_wrt_iff_nth_less)
  qed
  have self: "\<not> R (S ! i) (S ! i)" using lin mem unfolding strict_linear_on_def by blast
  have "List.filter (R (S ! i)) (take i S @ S ! i # drop (Suc i) S) = drop (Suc i) S"
    using before after self by (simp add: filter_empty_conv filter_id_conv)
  with split show ?thesis by simp
qed

subsection \<open>The insertion sort of the collection\<close>

lemma set_insert_doc: "set (insert_doc spec x ys) = insert x (set ys)"
  by (induction ys) auto

lemma set_sort_docs: "set (sort_docs spec xs) = set xs"
  by (induction xs) (auto simp: set_insert_doc)

lemma sorted_insert_doc:
  assumes lin: "strict_linear_on A (doc_before spec)"
    and "x \<in> A" and "set ys \<subseteq> A" and "x \<notin> set ys" and "sorted_wrt (doc_before spec) ys"
  shows "sorted_wrt (doc_before spec) (insert_doc spec x ys)"
  using assms(3-5)
proof (induction ys)
  case Nil
  then show ?case by simp
next
  case (Cons y ys)
  show ?case
  proof (cases "doc_before spec y x")
    case True
    with Cons show ?thesis by (auto simp: set_insert_doc)
  next
    case False
    from Cons.prems \<open>x \<in> A\<close> have yA: "y \<in> A" and ne: "x \<noteq> y" by auto
    with False lin \<open>x \<in> A\<close> have xy: "doc_before spec x y"
      unfolding strict_linear_on_def by blast
    have "doc_before spec x z" if "z \<in> set ys" for z
    proof -
      from that Cons.prems have "doc_before spec y z" and "z \<in> A" by auto
      with xy lin \<open>x \<in> A\<close> yA show ?thesis unfolding strict_linear_on_def by blast
    qed
    with False xy Cons.prems show ?thesis by auto
  qed
qed

lemma sorted_sort_docs:
  assumes "strict_linear_on A (doc_before spec)"
  shows "distinct xs \<Longrightarrow> set xs \<subseteq> A \<Longrightarrow> sorted_wrt (doc_before spec) (sort_docs spec xs)"
proof (induction xs)
  case Nil
  then show ?case by simp
next
  case (Cons x xs)
  then show ?case
    using sorted_insert_doc [OF assms, of x "sort_docs spec xs"]
    by (simp add: set_sort_docs)
qed

lemma sort_docs_filter:
  assumes lin: "strict_linear_on (set xs) (doc_before spec)" and "distinct xs"
  shows "sort_docs spec (List.filter P xs) = List.filter P (sort_docs spec xs)"
proof (rule sorted_wrt_unique [OF lin])
  show "sorted_wrt (doc_before spec) (sort_docs spec (List.filter P xs))"
    using assms by (intro sorted_sort_docs [OF lin]) auto
  show "sorted_wrt (doc_before spec) (List.filter P (sort_docs spec xs))"
    using assms by (intro sorted_wrt_filter sorted_sort_docs [OF lin]) auto
  show "set (sort_docs spec (List.filter P xs)) = set (List.filter P (sort_docs spec xs))"
    by (simp add: set_sort_docs)
  show "set (sort_docs spec (List.filter P xs)) \<subseteq> set xs"
    by (auto simp: set_sort_docs)
qed

subsection \<open>Sort keys that survive the cursor\<close>

lemma cursor_key_prop:
  assumes "cursor_key k d = Some s"
  shows "s \<noteq> []"
    and "get_prop d k = VScalar (if k = ''_id'' then SObjectId (ObjectId s) else SString s)"
  using assms
  by (auto simp: cursor_key_def get_prop_def split: if_splits option.splits fieldval.splits scalar.splits)

lemma value_lt_keys:
  assumes "cursor_key k a = Some s" and "cursor_key k b = Some t"
  shows "value_lt (get_prop a k) (get_prop b k) = str_lt s t"
  using cursor_key_prop(2) [OF assms(1)] cursor_key_prop(2) [OF assms(2)]
  by (simp add: value_lt_def)

lemma doc_before_keys:
  assumes "cursor_key k a = Some s" and "cursor_key k b = Some t"
  shows "doc_before [(k, ord)] a b = (if ascending ord then str_lt s t else str_lt t s)"
  using value_lt_keys [OF assms] value_lt_keys [OF assms(2,1)]
  by (auto simp: Let_def dest: str_lt_trans simp: str_lt_irrefl)

lemma strict_linear_docs:
  assumes dom: "\<forall>d\<in>set docs. cursor_key k d \<noteq> None" and inj: "inj_on (cursor_key k) (set docs)"
  shows "strict_linear_on (set docs) (doc_before [(k, ord)])"
  unfolding strict_linear_on_def
proof (intro conjI ballI impI)
  fix x assume "x \<in> set docs"
  with dom obtain s where "cursor_key k x = Some s" by auto
  then show "\<not> doc_before [(k, ord)] x x"
    by (simp add: doc_before_keys str_lt_irrefl del: doc_before.simps)
next
  fix x y z assume "x \<in> set docs" "y \<in> set docs" "z \<in> set docs"
  with dom obtain s t u where k: "cursor_key k x = Some s" "cursor_key k y = Some t" "cursor_key k z = Some u"
    by (meson not_Some_eq)
  assume "doc_before [(k, ord)] x y" and "doc_before [(k, ord)] y z"
  with k show "doc_before [(k, ord)] x z"
    by (auto simp: doc_before_keys simp del: doc_before.simps split: if_splits intro: str_lt_trans)
next
  fix x y assume xy: "x \<in> set docs" "y \<in> set docs" and ne: "x \<noteq> y"
  with dom obtain s t where k: "cursor_key k x = Some s" "cursor_key k y = Some t"
    by (meson not_Some_eq)
  from xy ne inj have "cursor_key k x \<noteq> cursor_key k y" by (auto dest: inj_onD)
  with k have "s \<noteq> t" by simp
  then have "str_lt s t \<or> str_lt t s" by (rule str_lt_total)
  with k show "doc_before [(k, ord)] x y \<or> doc_before [(k, ord)] y x"
    by (auto simp: doc_before_keys simp del: doc_before.simps)
qed

lemma length_insert_doc: "length (insert_doc spec x ys) = Suc (length ys)"
  by (induction ys) auto

lemma length_sort_docs: "length (sort_docs spec xs) = length xs"
  by (induction xs) (auto simp: length_insert_doc)

lemma distinct_insert_doc: "distinct (insert_doc spec x ys) = (x \<notin> set ys \<and> distinct ys)"
  by (induction ys) (auto simp: set_insert_doc)

lemma distinct_sort_docs: "distinct (sort_docs spec xs) = distinct xs"
  by (induction xs) (auto simp: distinct_insert_doc set_sort_docs)

subsection \<open>The query of one page\<close>

lemma matches_update:
  "k \<notin> fst ` set flt \<Longrightarrow>
     matches (AList.update k c flt) d = (matches flt d \<and> matches_cond (get_prop d k) c)"
  by (induction flt) (auto simp: matches_def)

lemma lower_hex_digit:
  assumes "is_lower_hex c"
  shows "is_hex_digit c" and "lower_hex c = c"
  using assms by (auto simp: is_lower_hex_def is_hex_digit_def lower_hex_def)

lemma ObjectId_new_lower:
  assumes "length h = 24" and "list_all is_lower_hex h"
  shows "ObjectId_new h = Inr (ObjectId h)"
proof -
  from assms(2) have "list_all is_hex_digit h" and "map lower_hex h = h"
    by (induction h) (auto simp: lower_hex_digit)
  with assms(1) show ?thesis by (simp add: ObjectId_new_def)
qed

lemma cursor_key_id:
  assumes "cursor_key ''_id'' d = Some s"
  shows "ObjectId_new s = Inr (ObjectId s)" and "doc_id d = Some (ObjectId s)"
proof -
  from assms obtain i where i: "doc_id d = Some i" and "length (hex i) = 24"
    and "list_all is_lower_hex (hex i)" and s: "s = hex i"
    by (auto simp: cursor_key_def split: option.splits if_splits)
  then show "ObjectId_new s = Inr (ObjectId s)" by (simp add: ObjectId_new_lower)
  from i s show "doc_id d = Some (ObjectId s)" by (cases i) simp
qed

text \<open>The operand that the range clause carries for a cursor \<open>c\<close>.\<close>

lemma clause_is_doc_before:
  assumes "cursor_key k x = Some c" and "cursor_key k d = Some t"
    and "ord \<noteq> Asc" and "ord \<noteq> Ascending"
  shows "matches_cond (get_prop d k)
           (if ord = Plus1 then Gt (VScalar (if k = ''_id'' then SObjectId (ObjectId c) else SString c))
            else Lt (VScalar (if k = ''_id'' then SObjectId (ObjectId c) else SString c)))
         = doc_before [(k, ord)] x d"
proof -
  have d: "get_prop d k = VScalar (if k = ''_id'' then SObjectId (ObjectId t) else SString t)"
    by (rule cursor_key_prop(2) [OF assms(2)])
  have b: "doc_before [(k, ord)] x d = (if ascending ord then str_lt c t else str_lt t c)"
    by (rule doc_before_keys [OF assms(1,2)])
  show ?thesis
    unfolding b d using assms(3,4) by (cases ord) auto
qed

lemma cursor_filter_at_key:
  assumes sc: "sortConfig this = [(k, ord)]" and key: "cursor_key k x = Some c"
    and cur: "cursor this = Val c"
  shows "cursor_filter this =
    Inr (AList.update k
          (if ord = Plus1 then Gt (VScalar (if k = ''_id'' then SObjectId (ObjectId c) else SString c))
           else Lt (VScalar (if k = ''_id'' then SObjectId (ObjectId c) else SString c)))
          (filter_or_empty (args this)))"
proof -
  from sc have sf: "sortField this = Some k" and so: "sortOrder this = Some ord"
    by (simp_all add: sortField_def sortOrder_def)
  from key have ne: "c \<noteq> []" by (rule cursor_key_prop(1))
  show ?thesis
  proof (cases "k = ''_id''")
    case True
    with key have "ObjectId_new c = Inr (ObjectId c)" by (simp add: cursor_key_id)
    with True sf so ne cur show ?thesis by (simp add: cursor_filter_def Let_def)
  next
    case False
    with sf so ne cur show ?thesis by (simp add: cursor_filter_def Let_def prop_key_def)
  qed
qed

lemma run_query_page:
  assumes "sortConfig this = spec" and "climit this = Num (of_nat l)" and "1 \<le> l"
  shows "run_query docs (CursorPaginator_query this flt)
         = Inr (take l (sort_docs spec (List.filter (matches flt) docs)))"
  using assms by (simp add: run_query_def CursorPaginator_query_def is_integer_def)

lemma next_cursor_at_key:
  assumes sc: "sortConfig this = [(k, ord)]" and "items \<noteq> []"
    and key: "cursor_key k (last items) = Some c"
  shows "next_cursor this items = Inr (Val c)"
proof -
  from sc have sf: "sortField this = Some k" by (simp add: sortField_def)
  show ?thesis
  proof (cases "k = ''_id''")
    case True
    with key have "doc_id (last items) = Some (ObjectId c)" by (simp add: cursor_key_id)
    with True sf assms(2) show ?thesis by (simp add: next_cursor_def Let_def)
  next
    case False
    with cursor_key_prop(2) [OF key] have "get_prop (last items) k = VScalar (SString c)" by simp
    with False sf assms(2) show ?thesis by (simp add: next_cursor_def Let_def prop_key_def)
  qed
qed

lemma paginate_page:
  assumes m: "model this = collection docs" and sc: "sortConfig this = [(k, ord)]"
    and dom: "\<forall>d\<in>set docs. cursor_key k d \<noteq> None"
    and cf: "cursor_filter this = Inr flt"
    and ex: "run_query docs (CursorPaginator_query this flt) = Inr items"
    and sub: "set items \<subseteq> set docs"
  shows "snd (CursorPaginator_paginate this) = Inr \<lparr>data = items, meta = cursor_meta (page_cursor k items)\<rparr>"
proof -
  have "next_cursor this items = Inr (page_cursor k items)"
  proof (cases "items = []")
    case True
    then show ?thesis by (simp add: next_cursor_def page_cursor_def)
  next
    case False
    then have "last items \<in> set docs" using sub by auto
    with dom obtain c where c: "cursor_key k (last items) = Some c" by auto
    from next_cursor_at_key [OF sc False c] False c show ?thesis
      by (simp add: page_cursor_def)
  qed
  with cf ex m show ?thesis
    by (simp add: CursorPaginator_paginate_def Let_def collection_def)
qed

lemma take_drop_pages: "take l T @ drop (length (take l T)) T = T"
  by (cases "l \<le> length T") (simp_all add: min_def)

lemma walk_from:
  fixes this :: CursorPaginator and docs :: "Doc list" and k :: string and ord :: SortOrder
  defines "flt \<equiv> filter_or_empty (args this)"
  defines "S \<equiv> sort_docs [(k, ord)] (List.filter (matches flt) docs)"
  defines "cur \<equiv> \<lambda>i. if i = 0 then Null else Val (the (cursor_key k (S ! (i - 1))))"
  assumes m: "model this = collection docs" and sc: "sortConfig this = [(k, ord)]"
    and lim: "climit this = Num (of_nat l)" and l1: "1 \<le> l"
    and dir: "ord \<noteq> Asc" "ord \<noteq> Ascending"
    and nk: "k \<notin> fst ` set flt"
    and dom: "\<forall>d\<in>set docs. cursor_key k d \<noteq> None"
    and inj: "distinct (map (cursor_key k) docs)"
  shows "i \<le> length S \<Longrightarrow> length S - i < n \<Longrightarrow> traverse n (this\<lparr>cursor := cur i\<rparr>) = Done (drop i S)"
proof (induction n arbitrary: i)
  case 0
  then show ?case by simp
next
  case (Suc n)
  let ?M = "List.filter (matches flt) docs"
  let ?R = "doc_before [(k, ord)]"
  let ?that = "this\<lparr>cursor := cur i\<rparr>"
  from inj have dd: "distinct docs" and ii: "inj_on (cursor_key k) (set docs)"
    by (simp_all add: distinct_map)
  have lin: "strict_linear_on (set docs) ?R" by (rule strict_linear_docs [OF dom ii])
  have SM: "set S = set ?M" by (simp add: S_def set_sort_docs)
  then have Sd: "set S \<subseteq> set docs" by auto
  have linM: "strict_linear_on (set ?M) ?R" by (rule strict_linear_on_subset [OF lin]) auto
  have linS: "strict_linear_on (set S) ?R" by (rule strict_linear_on_subset [OF lin Sd])
  have srt: "sorted_wrt ?R S"
    unfolding S_def using dd by (intro sorted_sort_docs [OF lin]) auto
  have that: "model ?that = collection docs" "sortConfig ?that = [(k, ord)]"
    "climit ?that = Num (of_nat l)" "args ?that = args this"
    using m sc lim by (simp_all add: sortConfig_def)
  have page: "snd (CursorPaginator_paginate ?that)
      = Inr \<lparr>data = take l (drop i S), meta = cursor_meta (page_cursor k (take l (drop i S)))\<rparr>"
  proof (cases "i = 0")
    case True
    then have "cursor_filter ?that = Inr flt"
      by (simp add: cursor_filter_no_cursor cur_def that flt_def)
    moreover have "run_query docs (CursorPaginator_query ?that flt) = Inr (take l S)"
      unfolding S_def by (rule run_query_page [OF that(2,3) l1])
    moreover have "set (take l S) \<subseteq> set docs" using Sd by (meson set_take_subset subset_trans)
    ultimately show ?thesis using True paginate_page [OF that(1,2) dom] by simp
  next
    case False
    with Suc.prems have j: "i - 1 < length S" by simp
    let ?x = "S ! (i - 1)"
    from j have xS: "?x \<in> set S" by simp
    with Sd dom obtain c where c: "cursor_key k ?x = Some c" by auto
    let ?cl = "if ord = Plus1 then Gt (VScalar (if k = ''_id'' then SObjectId (ObjectId c) else SString c))
           else Lt (VScalar (if k = ''_id'' then SObjectId (ObjectId c) else SString c))"
    from False c have curv: "cursor ?that = Val c" by (simp add: cur_def)
    have cf: "cursor_filter ?that = Inr (AList.update k ?cl flt)"
      using cursor_filter_at_key [OF that(2) c curv] by (simp add: that flt_def)
    have eq: "matches (AList.update k ?cl flt) d = (matches flt d \<and> ?R ?x d)" if "d \<in> set docs" for d
    proof -
      from that dom obtain t where "cursor_key k d = Some t" by auto
      from clause_is_doc_before [OF c this dir] show ?thesis
        by (simp only: matches_update [OF nk])
    qed
    have "List.filter (matches (AList.update k ?cl flt)) docs
        = List.filter (\<lambda>d. matches flt d \<and> ?R ?x d) docs"
      by (rule filter_cong [OF refl]) (rule eq)
    also have "\<dots> = List.filter (?R ?x) ?M" by (simp only: filter_filter)
    finally have feq: "List.filter (matches (AList.update k ?cl flt)) docs = List.filter (?R ?x) ?M" .
    have dM: "distinct ?M" using dd by simp
    have "sort_docs [(k, ord)] (List.filter (?R ?x) ?M) = List.filter (?R ?x) S"
      unfolding S_def by (rule sort_docs_filter [OF linM dM])
    with feq have "sort_docs [(k, ord)] (List.filter (matches (AList.update k ?cl flt)) docs)
        = List.filter (?R ?x) S"
      by (simp only:)
    also have "\<dots> = drop (Suc (i - 1)) S" by (rule filter_sorted_is_drop [OF linS srt j])
    also from False have "\<dots> = drop i S" by simp
    finally have "run_query docs (CursorPaginator_query ?that (AList.update k ?cl flt))
        = Inr (take l (drop i S))"
      using run_query_page [OF that(2,3) l1, of docs "AList.update k ?cl flt"] by simp
    moreover have "set (take l (drop i S)) \<subseteq> set docs"
      using Sd by (meson set_take_subset set_drop_subset subset_trans)
    ultimately show ?thesis using paginate_page [OF that(1,2) dom cf] by simp
  qed
  let ?P = "take l (drop i S)"
  show ?case
  proof (cases "?P = []")
    case True
    with l1 have "drop i S = []" by (cases "drop i S") auto
    with True page show ?thesis by (simp add: page_cursor_def cursor_meta_def)
  next
    case False
    let ?i' = "i + length ?P"
    have lenP: "1 \<le> length ?P" using False by (cases ?P) auto
    have lenP': "length ?P \<le> length S - i" by simp
    with Suc.prems(1) have i': "?i' \<le> length S" by linarith
    have fuel: "length S - ?i' < n" using Suc.prems lenP lenP' by linarith
    have "last ?P = ?P ! (length ?P - 1)" using False by (rule last_conv_nth)
    also have "\<dots> = drop i S ! (length ?P - 1)"
    proof (rule nth_take)
      have "length ?P \<le> l" by simp
      with lenP show "length ?P - 1 < l" by linarith
    qed
    also have "\<dots> = S ! (i + (length ?P - 1))" using Suc.prems(1) by (rule nth_drop)
    finally have lastP: "last ?P = S ! (?i' - 1)" using lenP by simp
    have nz: "?i' \<noteq> 0" using lenP by linarith
    have "cur ?i' = Val (the (cursor_key k (S ! (?i' - 1))))"
      unfolding cur_def using nz by (simp only: if_False)
    then have "cur ?i' = Val (the (cursor_key k (last ?P)))" by (simp only: lastP)
    then have nxt: "CursorPaginator_setCursor (the (cursor_key k (last ?P))) ?that = this\<lparr>cursor := cur ?i'\<rparr>"
      by (simp add: CursorPaginator_setCursor_def)
    have "drop ?i' S = drop (length ?P) (drop i S)" by (simp add: add.commute)
    with take_drop_pages [of l "drop i S"] have glue: "?P @ drop ?i' S = drop i S" by simp
    from Suc.IH [OF i' fuel] page False nxt glue show ?thesis
      by (simp add: page_cursor_def cursor_meta_def)
  qed
qed

text \<open>
  Where the walk does succeed. A collection whose documents all have a sort
  key that survives the cursor (a non-empty string in the sort field or, for
  \<^verbatim>\<open>_id\<close>, an ObjectId), pairwise distinct; a sort object with that one field and a
  direction other than \<^verbatim>\<open>'asc'\<close> and \<^verbatim>\<open>'ascending'\<close>; a filter of the caller without a
  clause on the sort field; an integer limit of at least 1. Then the walk from the
  null cursor ends within one call more than there are documents, and the pages
  together are the answer of the collection to the unlimited query: the matching
  documents, each once, in the sort order.
\<close>

lemma walk_visits_every_match:
  assumes "model this = collection docs" and "cursor this = Null"
    and "sortConfig this = [(k, ord)]" and "ord \<noteq> Asc" and "ord \<noteq> Ascending"
    and "climit this = Num (of_nat l)" and "1 \<le> l"
    and "k \<notin> fst ` set (filter_or_empty (args this))"
    and "\<forall>d\<in>set docs. cursor_key k d \<noteq> None"
    and "distinct (map (cursor_key k) docs)"
  shows "traverse (Suc (length docs)) this
    = Done (sort_docs [(k, ord)] (List.filter (matches (filter_or_empty (args this))) docs))"
proof -
  let ?S = "sort_docs [(k, ord)] (List.filter (matches (filter_or_empty (args this))) docs)"
  have "length ?S \<le> length docs" by (simp add: length_sort_docs)
  then have fuel: "length ?S - 0 < Suc (length docs)" by simp
  from assms(2) have eq: "this\<lparr>cursor := Null\<rparr> = this" by simp
  have z: "0 \<le> length ?S" by simp
  from walk_from [OF assms(1,3,6,7,4,5,8,9,10) z fuel]
  show ?thesis by (simp only: if_True simp_thms eq drop_0)
qed

lemma walk_result_sorted:
  assumes "\<forall>d\<in>set docs. cursor_key k d \<noteq> None" and "distinct (map (cursor_key k) docs)"
  shows "sorted_wrt (doc_before [(k, ord)]) (sort_docs [(k, ord)] (List.filter (matches flt) docs))"
    and "distinct (sort_docs [(k, ord)] (List.filter (matches flt) docs))"
    and "set (sort_docs [(k, ord)] (List.filter (matches flt) docs)) = {d \<in> set docs. matches flt d}"
proof -
  from assms(2) have dd: "distinct docs" and ii: "inj_on (cursor_key k) (set docs)"
    by (simp_all add: distinct_map)
  have lin: "strict_linear_on (set docs) (doc_before [(k, ord)])"
    by (rule strict_linear_docs [OF assms(1) ii])
  show "sorted_wrt (doc_before [(k, ord)]) (sort_docs [(k, ord)] (List.filter (matches flt) docs))"
    using dd by (intro sorted_sort_docs [OF lin]) auto
  show "distinct (sort_docs [(k, ord)] (List.filter (matches flt) docs))"
    using dd by (simp add: distinct_sort_docs)
  show "set (sort_docs [(k, ord)] (List.filter (matches flt) docs)) = {d \<in> set docs. matches flt d}"
    by (simp add: set_sort_docs)
qed

lemma walk_visits_every_person:
  "traverse 4 (CursorPaginator_new (collection people) Null (Num 1) (Some by_id_desc)) = Done (rev people)"
proof -
  let ?p = "CursorPaginator_new (collection people) Null (Num 1) (Some by_id_desc)"
  have a: "model ?p = collection people" and b: "cursor ?p = Null"
    and c: "climit ?p = Num (of_nat 1)"
    by (simp_all add: CursorPaginator_new_def)
  have d: "sortConfig ?p = [(''_id'', Minus1)]" by code_simp
  have e: "''_id'' \<notin> fst ` set (filter_or_empty (args ?p))" by code_simp
  have f: "\<forall>d\<in>set people. cursor_key ''_id'' d \<noteq> None" by code_simp
  have g: "distinct (map (cursor_key ''_id'') people)" by code_simp
  have h: "Minus1 \<noteq> Asc" "Minus1 \<noteq> Ascending" "(1::nat) \<le> 1" by simp_all
  have "traverse (Suc (length people)) ?p
    = Done (sort_docs [(''_id'', Minus1)] (List.filter (matches (filter_or_empty (args ?p))) people))"
    by (rule walk_visits_every_match [OF a b d h(1,2) c h(3) e f g])
  moreover have "length people = 3" by code_simp
  moreover have "sort_docs [(''_id'', Minus1)] (List.filter (matches (filter_or_empty (args ?p))) people)
      = rev people" by code_simp
  ultimately show ?thesis by simp
qed

end
